theory Spec2Isabelle
  imports Complex_Main "HOL-Library.AList" "HOL-Library.Sublist" "HOL-Library.Log_Nat"
begin

section \<open>Python values and text\<close>

text \<open>
  The temperature sweeper \<^verbatim>\<open>t_sweeper.py\<close> is embedded function by function. Python
  exceptions are values of \<open>error\<close>; a function that can raise returns a sum whose left
  injection carries the exception.

  A temperature is a finite float. Every finite float is a rational number, and the
  operations the sweeper applies to one temperature (\<^verbatim>\<open>round\<close>, \<^verbatim>\<open>int\<close>, formatting) are
  exact functions of that rational, so temperatures are values of type \<open>rat\<close>. The
  arithmetic of the mesh rounds: every operation on floats returns the double nearest to
  the exact result (section \<open>Floating-point arithmetic\<close>).

  Text is a \<open>string\<close>; one \<open>char\<close> stands for one code point below 256.
\<close>

datatype error =
    ValueError
  | TypeError
  | AttributeError
  | ZeroDivisionError
  | FileNotFoundError
  | NotADirectoryError
  | FileExistsError
  | IsADirectoryError
  | PermissionError
  | SameFileError
  | ShutilError
  | OSError
  | UnicodeDecodeError
  | CalledProcessError int
  | SystemExit int

type_synonym temperature = rat

text \<open>The exceptions that are instances of \<^verbatim>\<open>OSError\<close> (\<^verbatim>\<open>IOError\<close> is the same class;
  \<^verbatim>\<open>shutil.Error\<close> and its subclass \<^verbatim>\<open>shutil.SameFileError\<close> derive from it).\<close>

definition is_os_error :: "error \<Rightarrow> bool" where
  "is_os_error e =
     (e \<in> set [FileNotFoundError, NotADirectoryError, FileExistsError, IsADirectoryError,
                PermissionError, SameFileError, ShutilError, OSError])"

subsection \<open>\<^verbatim>\<open>str.strip\<close>, \<^verbatim>\<open>str.split\<close>, \<^verbatim>\<open>str.replace\<close>, \<^verbatim>\<open>in\<close>\<close>

text \<open>The code points below 256 for which \<^verbatim>\<open>str.isspace\<close> holds.\<close>

definition whitespace :: "char list" where
  "whitespace = map char_of [9::nat, 10, 11, 12, 13, 28, 29, 30, 31, 32, 133, 160]"

definition is_space :: "char \<Rightarrow> bool" where
  "is_space c = (c \<in> set whitespace)"

definition py_strip :: "string \<Rightarrow> string" where
  "py_strip s = rev (dropWhile is_space (rev (dropWhile is_space s)))"

text \<open>\<^verbatim>\<open>s.split(sep, 1)\<close> for a separator of one character: at most two parts.\<close>

definition py_split1 :: "char \<Rightarrow> string \<Rightarrow> string list" where
  "py_split1 sep s =
     (if sep \<in> set s
      then [takeWhile (\<lambda>c. c \<noteq> sep) s, tl (dropWhile (\<lambda>c. c \<noteq> sep) s)]
      else [s])"

text \<open>
  \<^verbatim>\<open>s.replace(old, new)\<close>: the occurrences of \<open>old\<close> are found from the left and do not
  overlap; an empty \<open>old\<close> matches before every character and at the end.
\<close>

function py_replace :: "string \<Rightarrow> string \<Rightarrow> string \<Rightarrow> string" where
  "py_replace old new [] = (if old = [] then new else [])"
| "py_replace old new (c # cs) =
     (if old = [] then new @ c # py_replace old new cs
      else if prefix old (c # cs)
           then new @ py_replace old new (drop (length old) (c # cs))
           else c # py_replace old new cs)"
  by pat_completeness auto
termination
  by (relation "measure (\<lambda>(old, new, s). length s)") auto

text \<open>\<^verbatim>\<open>a in b\<close> on strings is the test for a contiguous occurrence.\<close>

definition py_in :: "string \<Rightarrow> string \<Rightarrow> bool" where
  "py_in a b = sublist a b"

subsection \<open>\<^verbatim>\<open>round\<close>, \<^verbatim>\<open>int\<close>, \<^verbatim>\<open>str\<close> and the format \<^verbatim>\<open>04d\<close>\<close>

text \<open>\<^verbatim>\<open>round(x)\<close> of a float, no digits given: the nearest integer, a tie going to the
  even one.\<close>

definition py_round :: "rat \<Rightarrow> int" where
  "py_round x =
     (let f = \<lfloor>x\<rfloor>; d = x - of_int f
      in if d < 1 / 2 then f
         else if 1 / 2 < d then f + 1
         else if even f then f else f + 1)"

text \<open>\<^verbatim>\<open>int(x)\<close> of a float truncates towards zero.\<close>

definition py_trunc :: "rat \<Rightarrow> int" where
  "py_trunc x = (if 0 \<le> x then \<lfloor>x\<rfloor> else \<lceil>x\<rceil>)"

definition digit_char :: "nat \<Rightarrow> char" where
  "digit_char d = char_of (48 + d)"

fun digits :: "nat \<Rightarrow> string" where
  "digits n = (if n < 10 then [digit_char n] else digits (n div 10) @ [digit_char (n mod 10)])"

declare digits.simps [simp del]

text \<open>\<^verbatim>\<open>str(n)\<close> and \<^verbatim>\<open>f"{n}"\<close> of an integer.\<close>

definition py_str_int :: "int \<Rightarrow> string" where
  "py_str_int n = (if n < 0 then CHR ''-'' # digits (nat (- n)) else digits (nat n))"

text \<open>\<^verbatim>\<open>f"{n:04d}"\<close>: the sign, then zeros, then the digits, four characters at least.\<close>

definition format_04d :: "int \<Rightarrow> string" where
  "format_04d n =
     (let ds = digits (nat \<bar>n\<bar>)
      in if n < 0 then CHR ''-'' # replicate (3 - length ds) CHR ''0'' @ ds
         else replicate (4 - length ds) CHR ''0'' @ ds)"

text \<open>The value of a string of decimal digits.\<close>

definition digit_val :: "char \<Rightarrow> nat" where
  "digit_val c = of_char c - 48"

definition is_digit :: "char \<Rightarrow> bool" where
  "is_digit c = (48 \<le> (of_char c :: nat) \<and> (of_char c :: nat) \<le> 57)"

definition decimal_value :: "string \<Rightarrow> nat" where
  "decimal_value s = foldl (\<lambda>a c. 10 * a + digit_val c) 0 s"

text \<open>
  \<^verbatim>\<open>int(s)\<close> of a string: surrounding whitespace is dropped, one sign is allowed, then
  decimal digits, where single underscores may stand between digits. Anything else
  (a decimal point, an exponent, an empty string) raises \<^verbatim>\<open>ValueError\<close>.
\<close>

fun digit_groups :: "string \<Rightarrow> bool" where
  "digit_groups [] = False"
| "digit_groups [c] = is_digit c"
| "digit_groups (c # d # cs) =
     (is_digit c \<and> (if d = CHR ''_'' then digit_groups cs else digit_groups (d # cs)))"

definition py_int_of_str :: "string \<Rightarrow> error + int" where
  "py_int_of_str s =
     (case py_strip s of
        [] \<Rightarrow> Inl ValueError
      | c # cs \<Rightarrow>
          (let body = (if c = CHR ''-'' \<or> c = CHR ''+'' then cs else c # cs);
               v = int (decimal_value (filter (\<lambda>x. x \<noteq> CHR ''_'') body))
           in if digit_groups body then Inr (if c = CHR ''-'' then - v else v)
              else Inl ValueError))"

section \<open>Workspace names and the placeholder token\<close>

text \<open>\<^verbatim>\<open>folder_name = f"T_{int(round(t)):04d}"\<close> in \<^verbatim>\<open>run_simulation\<close>.\<close>

definition folder_name :: "temperature \<Rightarrow> string" where
  "folder_name t = ''T_'' @ format_04d (py_round t)"

text \<open>\<^verbatim>\<open>text.replace("TEMP", f"{int(round(temperature))}")\<close> in
  \<^verbatim>\<open>replace_temperature_strings\<close>.\<close>

definition temperature_text :: "temperature \<Rightarrow> string" where
  "temperature_text t = py_str_int (py_round t)"

definition replace_TEMP :: "temperature \<Rightarrow> string \<Rightarrow> string" where
  "replace_TEMP t s = py_replace ''TEMP'' (temperature_text t) s"

section \<open>Floating-point arithmetic\<close>

text \<open>
  A Python \<^verbatim>\<open>float\<close> is an IEEE 754 double: a rational \<open>m * 2^k\<close> with \<open>\<bar>m\<bar> < 2^53\<close> and
  \<open>k \<ge> -1074\<close>. An arithmetic operation returns the double nearest to its exact result, a
  tie going to the double with the even significand. \<open>double x\<close> is that double:
  \<open>exponent x\<close> is the integer \<open>e\<close> with \<open>2^e \<le> \<bar>x\<bar> < 2^(e+1)\<close>, the doubles next to \<open>x\<close>
  are the multiples of \<open>2^(e-52)\<close> (of \<open>2^(-1074)\<close> in the subnormal range), and rounding
  \<open>x\<close> to a multiple of that unit is rounding the quotient to an integer. Overflow to
  infinity (above about \<open>1.8 * 10^308\<close>) is not part of the model.
\<close>

definition pow2 :: "int \<Rightarrow> rat" where
  "pow2 k = (if 0 \<le> k then 2 ^ nat k else 1 / 2 ^ nat (- k))"

definition exponent :: "rat \<Rightarrow> int" where
  "exponent x =
     (let (a, b) = quotient_of \<bar>x\<bar>; e = bitlen a - bitlen b
      in if pow2 e \<le> \<bar>x\<bar> then e else e - 1)"

definition double :: "rat \<Rightarrow> rat" where
  "double x =
     (if x = 0 then 0
      else let ulp = pow2 (max (exponent x) (- 1022) - 52)
           in of_int (py_round (x / ulp)) * ulp)"

section \<open>The file tree\<close>

text \<open>
  The files are the tree below the working directory of the program. A directory is
  the list of its entries, in the order in which \<^verbatim>\<open>iterdir\<close>, \<^verbatim>\<open>scandir\<close> and \<^verbatim>\<open>rglob\<close>
  yield them. A file has a mode, the read and write permission bits of its owner, and a
  content: text (the string \<^verbatim>\<open>read_text\<close> returns for it), or bytes that do not decode
  as text. The files are taken to belong to the user who runs the program, so that these
  two bits decide what the user may do with a file. A path is the list of its
  components, from the working directory. Symbolic links and special files are not part
  of the model, and every directory is taken to be readable, writable and searchable.
\<close>

datatype content = Text string | Undecodable string

datatype mode = Mode (readable: bool) (writable: bool)

datatype node = File mode content | Dir "(string \<times> node) list"

type_synonym listing = "(string \<times> node) list"

type_synonym path = "string list"

text \<open>The mode of a file that \<^verbatim>\<open>open\<close> creates.\<close>

definition rw :: mode where
  "rw = Mode True True"

text \<open>The permission checks of the system, where \<open>su\<close> tells whether the user is the superuser, who
  passes all of them.\<close>

definition may_read :: "bool \<Rightarrow> mode \<Rightarrow> bool" where
  "may_read su m = (readable m \<or> su)"

definition may_write :: "bool \<Rightarrow> mode \<Rightarrow> bool" where
  "may_write su m = (writable m \<or> su)"

fun lookup :: "listing \<Rightarrow> path \<Rightarrow> node option" where
  "lookup es [] = Some (Dir es)"
| "lookup es (name # rest) =
     (case map_of es name of
        None \<Rightarrow> None
      | Some (File m c) \<Rightarrow> (if rest = [] then Some (File m c) else None)
      | Some (Dir ds) \<Rightarrow> lookup ds rest)"

text \<open>
  \<^verbatim>\<open>Path.iterdir()\<close>: the entries of the directory at a path. A component that is
  missing raises \<^verbatim>\<open>FileNotFoundError\<close>, and a component that is a regular file,
  the last one or one on the way, raises \<^verbatim>\<open>NotADirectoryError\<close>.
\<close>

fun iterdir :: "listing \<Rightarrow> path \<Rightarrow> error + listing" where
  "iterdir es [] = Inr es"
| "iterdir es (name # rest) =
     (case map_of es name of
        None \<Rightarrow> Inl FileNotFoundError
      | Some (File m c) \<Rightarrow> Inl NotADirectoryError
      | Some (Dir ds) \<Rightarrow> iterdir ds rest)"

text \<open>The size of a tree, for the recursions over it.\<close>

definition tree_size :: "listing \<Rightarrow> nat" where
  "tree_size es = size_list (size_prod (\<lambda>n. 0) size) es"

text \<open>
  The external binary: from its path, the name of the directory it runs in and the
  files it finds, either it cannot be started (\<open>None\<close>) or it exits with a status, having
  written its output. The output is all the model keeps of its effect.
\<close>

type_synonym process = "string \<Rightarrow> string \<Rightarrow> listing \<Rightarrow> (int \<times> content) option"

subsection \<open>\<^verbatim>\<open>replace_temperature_strings\<close>\<close>

text \<open>\<^verbatim>\<open>path.suffix\<close>: the name from its last dot on, when that dot is neither the first
  nor the last character of the name (\<^verbatim>\<open>pathlib\<close> up to Python 3.12).\<close>

definition path_suffix :: "string \<Rightarrow> string" where
  "path_suffix name =
     (let after = takeWhile (\<lambda>c. c \<noteq> CHR ''.'') (rev name);
          i = length name - length after - 1
      in if CHR ''.'' \<in> set name \<and> 0 < i \<and> after \<noteq> [] then drop i name else [])"

text \<open>
  The body of the loop for one file: the new content when \<^verbatim>\<open>write_text\<close> is called,
  \<open>None\<close> when the file is left alone (its suffix is excluded, decoding it raises
  \<^verbatim>\<open>UnicodeDecodeError\<close>, or the text is unchanged).
\<close>

definition rewrite_file :: "temperature \<Rightarrow> string \<Rightarrow> content \<Rightarrow> content option" where
  "rewrite_file temperature name c =
     (if path_suffix name \<notin> set [''.exe'', ''.bin'']
      then (case c of
              Text text \<Rightarrow>
                (let new_text = replace_TEMP temperature text
                 in if new_text \<noteq> text then Some (Text new_text) else None)
            | Undecodable bytes \<Rightarrow> None)
      else None)"

text \<open>
  \<^verbatim>\<open>replace_temperature_strings(folder_path, temperature)\<close>: the walk of
  \<^verbatim>\<open>folder_path.rglob("*")\<close> over the entries of the folder, with the contents it leaves
  behind, and the paths (from the folder) of the files it writes. \<^verbatim>\<open>write_text\<close> keeps
  the mode of the file. This is the walk when the system lets it read and write every
  file it opens; \<open>walk\<close>, below, is the walk with the permission checks.
\<close>

function replace_temperature_strings :: "listing \<Rightarrow> temperature \<Rightarrow> listing" where
  "replace_temperature_strings [] temperature = []"
| "replace_temperature_strings ((name, File m c) # es) temperature =
     (name, File m (case rewrite_file temperature name c of None \<Rightarrow> c | Some c' \<Rightarrow> c'))
       # replace_temperature_strings es temperature"
| "replace_temperature_strings ((name, Dir ds) # es) temperature =
     (name, Dir (replace_temperature_strings ds temperature))
       # replace_temperature_strings es temperature"
  by pat_completeness auto
termination
  by (relation "measure (\<lambda>(es, t). tree_size es)") (auto simp add: tree_size_def)

function written_files :: "listing \<Rightarrow> temperature \<Rightarrow> path list" where
  "written_files [] temperature = []"
| "written_files ((name, File m c) # es) temperature =
     (case rewrite_file temperature name c of None \<Rightarrow> [] | Some c' \<Rightarrow> [[name]])
       @ written_files es temperature"
| "written_files ((name, Dir ds) # es) temperature =
     map ((#) name) (written_files ds temperature) @ written_files es temperature"
  by pat_completeness auto
termination
  by (relation "measure (\<lambda>(es, t). tree_size es)") (auto simp add: tree_size_def)

text \<open>
  The walk with the permission checks. A file with an excluded suffix is not opened.
  Any other file is read, which raises \<^verbatim>\<open>PermissionError\<close> when the user may not read
  it, and written when its text changes, which raises \<^verbatim>\<open>PermissionError\<close> when the user
  may not write it. The exception ends the walk (only \<^verbatim>\<open>UnicodeDecodeError\<close> is caught),
  and comes with the entries as the walk leaves them. \<^verbatim>\<open>rglob\<close> yields the entries of
  a directory before it descends into its subdirectories: \<open>walk_files\<close> is the walk over
  the files of one directory, \<open>rewrite_files\<close> is what it leaves when it raises nothing,
  and \<open>walk_dirs\<close> is the walk over the subdirectories of a directory whose own files
  are done.
\<close>

definition refused :: "bool \<Rightarrow> temperature \<Rightarrow> string \<Rightarrow> mode \<Rightarrow> content \<Rightarrow> bool" where
  "refused su temperature name m c =
     (path_suffix name \<notin> set [''.exe'', ''.bin'']
      \<and> (\<not> may_read su m
          \<or> (rewrite_file temperature name c \<noteq> None \<and> \<not> may_write su m)))"

fun walk_files :: "bool \<Rightarrow> temperature \<Rightarrow> listing \<Rightarrow> error option \<times> listing" where
  "walk_files su temperature [] = (None, [])"
| "walk_files su temperature ((name, File m c) # es) =
     (if refused su temperature name m c
      then (Some PermissionError, (name, File m c) # es)
      else (case walk_files su temperature es of
              (r, es') \<Rightarrow>
                (r, (name, File m (case rewrite_file temperature name c of
                                     None \<Rightarrow> c | Some c' \<Rightarrow> c')) # es')))"
| "walk_files su temperature ((name, Dir ds) # es) =
     (case walk_files su temperature es of (r, es') \<Rightarrow> (r, (name, Dir ds) # es'))"

fun rewrite_files :: "temperature \<Rightarrow> listing \<Rightarrow> listing" where
  "rewrite_files temperature [] = []"
| "rewrite_files temperature ((name, File m c) # es) =
     (name, File m (case rewrite_file temperature name c of None \<Rightarrow> c | Some c' \<Rightarrow> c'))
       # rewrite_files temperature es"
| "rewrite_files temperature ((name, Dir ds) # es) =
     (name, Dir ds) # rewrite_files temperature es"

function walk_dirs :: "bool \<Rightarrow> temperature \<Rightarrow> listing \<Rightarrow> error option \<times> listing" where
  "walk_dirs su temperature [] = (None, [])"
| "walk_dirs su temperature ((name, File m c) # es) =
     (case walk_dirs su temperature es of
        (r, es') \<Rightarrow>
          (r, (name, File m (case rewrite_file temperature name c of
                               None \<Rightarrow> c | Some c' \<Rightarrow> c')) # es'))"
| "walk_dirs su temperature ((name, Dir ds) # es) =
     (case walk_files su temperature ds of
        (Some e, ds') \<Rightarrow> (Some e, (name, Dir ds') # rewrite_files temperature es)
      | (None, ds') \<Rightarrow>
          (case walk_dirs su temperature ds of
             (Some e, ds'') \<Rightarrow> (Some e, (name, Dir ds'') # rewrite_files temperature es)
           | (None, ds'') \<Rightarrow>
               (case walk_dirs su temperature es of
                  (r, es') \<Rightarrow> (r, (name, Dir ds'') # es'))))"
  by pat_completeness auto
termination
  by (relation "measure (\<lambda>(s, t, es). tree_size es)") (auto simp add: tree_size_def)

definition walk :: "bool \<Rightarrow> temperature \<Rightarrow> listing \<Rightarrow> error option \<times> listing" where
  "walk su temperature es =
     (case walk_files su temperature es of
        (Some e, es') \<Rightarrow> (Some e, es')
      | (None, es') \<Rightarrow> walk_dirs su temperature es)"

subsection \<open>\<^verbatim>\<open>shutil.copy2\<close> and \<^verbatim>\<open>shutil.copytree\<close>\<close>

text \<open>
  \<^verbatim>\<open>shutil.copy2(item, dest)\<close> for the file \<open>name\<close> of the directory at the path \<open>src\<close>,
  with mode \<open>m\<close> and content \<open>c\<close>, where \<open>dest\<close> is the entry \<open>name\<close> of the directory at
  the path \<open>dst\<close>, which has the entries \<open>ds\<close>. A destination that is a directory
  receives the file under the same name. Then \<^verbatim>\<open>SameFileError\<close> is raised when the
  destination is the source itself; the source is opened, which needs the permission
  to read it; the destination is opened for writing, which raises
  \<^verbatim>\<open>IsADirectoryError\<close> when it is a directory and needs the permission to write it
  when it is a file that exists. The copy has the content and, by \<^verbatim>\<open>copystat\<close>, the mode
  of the source.
\<close>

definition copy2 :: "bool \<Rightarrow> path \<Rightarrow> path \<Rightarrow> string \<Rightarrow> mode \<Rightarrow> content \<Rightarrow> listing \<Rightarrow> error + listing" where
  "copy2 su src dst name m c ds =
     (case map_of ds name of
        Some (Dir inner) \<Rightarrow>
          (if src @ [name] = dst @ [name, name] then Inl SameFileError
           else if \<not> may_read su m then Inl PermissionError
           else (case map_of inner name of
                   Some (Dir x) \<Rightarrow> Inl IsADirectoryError
                 | Some (File m' c') \<Rightarrow>
                     (if may_write su m'
                      then Inr (AList.update name (Dir (AList.update name (File m c) inner)) ds)
                      else Inl PermissionError)
                 | None \<Rightarrow>
                     Inr (AList.update name (Dir (AList.update name (File m c) inner)) ds)))
      | Some (File m' c') \<Rightarrow>
          (if src @ [name] = dst @ [name] then Inl SameFileError
           else if \<not> may_read su m then Inl PermissionError
           else if may_write su m' then Inr (AList.update name (File m c) ds)
           else Inl PermissionError)
      | None \<Rightarrow>
          (if \<not> may_read su m then Inl PermissionError
           else Inr (AList.update name (File m c) ds)))"

text \<open>
  The loop of \<^verbatim>\<open>shutil.copytree(src, dst, dirs_exist_ok=True)\<close> over the entries of
  \<open>src\<close>, into the entries \<open>ds\<close> of \<open>dst\<close>. An entry that fails is recorded and the loop
  goes on; the flag tells whether \<^verbatim>\<open>shutil.Error\<close> is raised at the end. A directory
  whose destination is a file fails in \<^verbatim>\<open>os.makedirs\<close>.
\<close>

function copy_entries :: "bool \<Rightarrow> path \<Rightarrow> path \<Rightarrow> listing \<Rightarrow> listing \<Rightarrow> bool \<times> listing" where
  "copy_entries su src dst [] ds = (False, ds)"
| "copy_entries su src dst ((name, File m c) # es) ds =
     (case copy2 su src dst name m c ds of
        Inl e \<Rightarrow> (True, snd (copy_entries su src dst es ds))
      | Inr ds' \<Rightarrow> copy_entries su src dst es ds')"
| "copy_entries su src dst ((name, Dir ses) # es) ds =
     (case map_of ds name of
        Some (File m c) \<Rightarrow> (True, snd (copy_entries su src dst es ds))
      | other \<Rightarrow>
          (let sub = copy_entries su (src @ [name]) (dst @ [name]) ses
                       (case other of Some (Dir x) \<Rightarrow> x | _ \<Rightarrow> []);
               rest = copy_entries su src dst es (AList.update name (Dir (snd sub)) ds)
           in (fst sub \<or> fst rest, snd rest)))"
  by pat_completeness auto
termination
  by (relation "measure (\<lambda>(s, src, dst, es, ds). tree_size es)") (auto simp add: tree_size_def)

text \<open>
  One turn of the copy loop of \<^verbatim>\<open>run_simulation\<close>: \<^verbatim>\<open>copytree\<close> for a directory,
  \<^verbatim>\<open>copy2\<close> for a file, from the base directory at the path \<open>src\<close> into the entries \<open>ws\<close>
  of the workspace at the path \<open>dst\<close>. The exception, if any, comes with the entries as
  the failed call leaves them.
\<close>

fun copy_item :: "bool \<Rightarrow> path \<Rightarrow> path \<Rightarrow> string \<times> node \<Rightarrow> listing \<Rightarrow> error option \<times> listing" where
  "copy_item su src dst (name, File m c) ws =
     (case copy2 su src dst name m c ws of
        Inl e \<Rightarrow> (Some e, ws)
      | Inr ws' \<Rightarrow> (None, ws'))"
| "copy_item su src dst (name, Dir ses) ws =
     (case map_of ws name of
        Some (File m c) \<Rightarrow> (Some FileExistsError, ws)
      | other \<Rightarrow>
          (let sub = copy_entries su (src @ [name]) (dst @ [name]) ses
                       (case other of Some (Dir x) \<Rightarrow> x | _ \<Rightarrow> [])
           in (if fst sub then Some ShutilError else None,
               AList.update name (Dir (snd sub)) ws)))"

text \<open>The loop \<^verbatim>\<open>for item in base_path.iterdir()\<close>: the first exception ends it.\<close>

fun copy_base :: "bool \<Rightarrow> path \<Rightarrow> path \<Rightarrow> listing \<Rightarrow> listing \<Rightarrow> error option \<times> listing" where
  "copy_base su src dst [] ws = (None, ws)"
| "copy_base su src dst (item # items) ws =
     (case copy_item su src dst item ws of
        (Some e, ws') \<Rightarrow> (Some e, ws')
      | (None, ws') \<Rightarrow> copy_base su src dst items ws')"

section \<open>The configuration file\<close>

text \<open>
  \<^verbatim>\<open>for line in f\<close> on a file opened in text mode: \<^verbatim>\<open>\r\n\<close> and a lone \<^verbatim>\<open>\r\<close> are read
  as \<^verbatim>\<open>\n\<close>, and every line keeps its \<^verbatim>\<open>\n\<close>.
\<close>

definition LF :: char where
  "LF = CHR 0x0A"

definition CR :: char where
  "CR = CHR 0x0D"

fun universal_newlines :: "string \<Rightarrow> string" where
  "universal_newlines [] = []"
| "universal_newlines [c] = (if c = CR then [LF] else [c])"
| "universal_newlines (c # d # cs) =
     (if c = CR then (if d = LF then LF # universal_newlines cs
                      else LF # universal_newlines (d # cs))
      else c # universal_newlines (d # cs))"

fun lines_from :: "string \<Rightarrow> string \<Rightarrow> string list" where
  "lines_from cur [] = (if cur = [] then [] else [cur])"
| "lines_from cur (c # cs) =
     (if c = LF then (cur @ [LF]) # lines_from [] cs else lines_from (cur @ [c]) cs)"

definition file_lines :: "string \<Rightarrow> string list" where
  "file_lines text = lines_from [] (universal_newlines text)"

text \<open>
  A Python \<^verbatim>\<open>dict\<close> keeps its keys in the order of their first insertion, and an
  assignment to a present key replaces the value in place: an association list under
  \<^const>\<open>AList.update\<close>.
\<close>

type_synonym config = "(string \<times> string) list"

text \<open>The body of the loop of \<^verbatim>\<open>parse_config_file\<close>, for one line.\<close>

definition config_line :: "config \<Rightarrow> string \<Rightarrow> error + config" where
  "config_line config line =
     (if py_in ''='' line \<and> \<not> prefix ''#'' (py_strip line)
      then (case py_split1 CHR ''='' (py_strip line) of
              [key, val] \<Rightarrow> Inr (AList.update (py_strip key) (py_strip val) config)
            | _ \<Rightarrow> Inl ValueError)
      else Inr config)"

fun config_lines :: "config \<Rightarrow> string list \<Rightarrow> error + config" where
  "config_lines config [] = Inr config"
| "config_lines config (line # rest) =
     (case config_line config line of
        Inl e \<Rightarrow> Inl e
      | Inr config' \<Rightarrow> config_lines config' rest)"

text \<open>
  \<^verbatim>\<open>parse_config_file(file_path)\<close>. The first argument is the file store: the text of
  the file at a path, or the exception that opening or decoding the file raises
  (\<^verbatim>\<open>FileNotFoundError\<close>, \<^verbatim>\<open>IsADirectoryError\<close>, \<^verbatim>\<open>PermissionError\<close>,
  \<^verbatim>\<open>UnicodeDecodeError\<close>).
\<close>

definition parse_config_file :: "(string \<Rightarrow> error + string) \<Rightarrow> string \<Rightarrow> error + config" where
  "parse_config_file read_text file_path =
     (case read_text file_path of
        Inl e \<Rightarrow> Inl e
      | Inr text \<Rightarrow> config_lines [] (file_lines text))"

text \<open>
  The parsing rule in the words of the specification: a line is an entry when it contains
  \<open>=\<close> and its trimmed form does not start with \<open>#\<close>; its key and value are the two sides
  of the first \<open>=\<close> of the trimmed line, each trimmed.
\<close>

definition entry_line :: "string \<Rightarrow> bool" where
  "entry_line line = (CHR ''='' \<in> set line \<and> \<not> prefix ''#'' (py_strip line))"

definition entry_key :: "string \<Rightarrow> string" where
  "entry_key line = py_strip (takeWhile (\<lambda>c. c \<noteq> CHR ''='') (py_strip line))"

definition entry_value :: "string \<Rightarrow> string" where
  "entry_value line = py_strip (tl (dropWhile (\<lambda>c. c \<noteq> CHR ''='') (py_strip line)))"

definition last_entry :: "string list \<Rightarrow> string \<Rightarrow> string option" where
  "last_entry lines key =
     (case filter (\<lambda>l. entry_line l \<and> entry_key l = key) lines of
        [] \<Rightarrow> None
      | e # es \<Rightarrow> Some (entry_value (last (e # es))))"

section \<open>Command line, namespace and the mesh\<close>

datatype pyval = PNone | PInt int | PFloat rat | PStr string

text \<open>
  The attribute dictionary \<^verbatim>\<open>args.__dict__\<close> of the \<^verbatim>\<open>argparse\<close> namespace, in
  insertion order.
\<close>

type_synonym namespace = "(string \<times> pyval) list"

text \<open>
  What the user gave on the command line, after \<^verbatim>\<open>argparse\<close> has converted each value
  with the \<^verbatim>\<open>type\<close> of its flag; \<open>None\<close> stands for a flag that was not given.
\<close>

record cli =
  cli_tmin :: "rat option"
  cli_tmax :: "rat option"
  cli_tstep :: "rat option"
  cli_steps :: "int option"
  cli_binary :: "string option"
  cli_base :: "string option"
  cli_file :: "string option"

text \<open>
  \<^verbatim>\<open>parser.parse_args()\<close>: one attribute per \<^verbatim>\<open>add_argument\<close>, holding the converted
  value or the default as it is written (the defaults 0, 500, 100 and 11 are integers).
\<close>

definition parse_args :: "cli \<Rightarrow> namespace" where
  "parse_args c =
     [(''tmin'', case cli_tmin c of None \<Rightarrow> PInt 0 | Some x \<Rightarrow> PFloat x),
      (''tmax'', case cli_tmax c of None \<Rightarrow> PInt 500 | Some x \<Rightarrow> PFloat x),
      (''tstep'', case cli_tstep c of None \<Rightarrow> PInt 100 | Some x \<Rightarrow> PFloat x),
      (''steps'', case cli_steps c of None \<Rightarrow> PInt 11 | Some n \<Rightarrow> PInt n),
      (''binary'', case cli_binary c of None \<Rightarrow> PStr ''./uppasd'' | Some s \<Rightarrow> PStr s),
      (''base'', case cli_base c of None \<Rightarrow> PStr ''Base'' | Some s \<Rightarrow> PStr s),
      (''file'', case cli_file c of None \<Rightarrow> PNone | Some s \<Rightarrow> PStr s)]"

definition getattr :: "namespace \<Rightarrow> string \<Rightarrow> error + pyval" where
  "getattr args name = (case map_of args name of None \<Rightarrow> Inl AttributeError | Some v \<Rightarrow> Inr v)"

definition setattr :: "namespace \<Rightarrow> string \<Rightarrow> pyval \<Rightarrow> namespace" where
  "setattr args name v = AList.update name v args"

definition truthy :: "pyval \<Rightarrow> bool" where
  "truthy v = (case v of PNone \<Rightarrow> False | PInt n \<Rightarrow> n \<noteq> 0 | PFloat x \<Rightarrow> x \<noteq> 0 | PStr s \<Rightarrow> s \<noteq> [])"

definition bind_err :: "error + 'a \<Rightarrow> ('a \<Rightarrow> error + 'b) \<Rightarrow> error + 'b" where
  "bind_err m f = (case m of Inl e \<Rightarrow> Inl e | Inr x \<Rightarrow> f x)"

text \<open>
  \<^verbatim>\<open>float(v)\<close> and \<^verbatim>\<open>int(v)\<close>. The reading of a float from text is a parameter
  \<open>float_of_str\<close> (\<open>None\<close> when \<^verbatim>\<open>float\<close> raises \<^verbatim>\<open>ValueError\<close>); the float of an
  integer is the double nearest to it.
\<close>

definition py_float :: "(string \<Rightarrow> rat option) \<Rightarrow> pyval \<Rightarrow> error + pyval" where
  "py_float float_of_str v =
     (case v of
        PStr s \<Rightarrow> (case float_of_str s of None \<Rightarrow> Inl ValueError | Some x \<Rightarrow> Inr (PFloat x))
      | PFloat x \<Rightarrow> Inr (PFloat x)
      | PInt n \<Rightarrow> Inr (PFloat (double (of_int n)))
      | PNone \<Rightarrow> Inl TypeError)"

definition py_int :: "pyval \<Rightarrow> error + pyval" where
  "py_int v =
     (case v of
        PStr s \<Rightarrow> (case py_int_of_str s of Inl e \<Rightarrow> Inl e | Inr n \<Rightarrow> Inr (PInt n))
      | PFloat x \<Rightarrow> Inr (PInt (py_trunc x))
      | PInt n \<Rightarrow> Inr (PInt n)
      | PNone \<Rightarrow> Inl TypeError)"

text \<open>\<^verbatim>\<open>config.get(key, default)\<close>.\<close>

definition config_get :: "config \<Rightarrow> string \<Rightarrow> pyval \<Rightarrow> pyval" where
  "config_get config key dflt = (case map_of config key of None \<Rightarrow> dflt | Some s \<Rightarrow> PStr s)"

text \<open>One line \<^verbatim>\<open>args.key = conv(config.get("key", args.key))\<close>.\<close>

definition override :: "(pyval \<Rightarrow> error + pyval) \<Rightarrow> config \<Rightarrow> string \<Rightarrow> namespace \<Rightarrow> error + namespace" where
  "override conv config key args =
     bind_err (getattr args key) (\<lambda>dflt.
     bind_err (conv (config_get config key dflt)) (\<lambda>v.
     Inr (setattr args key v)))"

text \<open>The six assignments of \<^verbatim>\<open>main\<close> after the file is parsed; \<open>tstep\<close> goes through
  \<^verbatim>\<open>int\<close>, as the source has it.\<close>

definition apply_config :: "(string \<Rightarrow> rat option) \<Rightarrow> config \<Rightarrow> namespace \<Rightarrow> error + namespace" where
  "apply_config float_of_str config args =
     bind_err (override (py_float float_of_str) config ''tmin'' args) (\<lambda>args.
     bind_err (override (py_float float_of_str) config ''tmax'' args) (\<lambda>args.
     bind_err (override py_int config ''tstep'' args) (\<lambda>args.
     bind_err (override py_int config ''steps'' args) (\<lambda>args.
     bind_err (override Inr config ''binary'' args) (\<lambda>args.
     override Inr config ''base'' args)))))"

text \<open>
  The environment of one run of the program: how \<^verbatim>\<open>float\<close> reads text, the text files
  \<^verbatim>\<open>open\<close> can read, \<^verbatim>\<open>sys.platform\<close>, the string \<^verbatim>\<open>str(Path(s))\<close> of a path, the
  components by which a path is found from the working directory, and the external
  binary.
\<close>

record env =
  float_of_str :: "string \<Rightarrow> rat option"
  read_text :: "string \<Rightarrow> error + string"
  platform :: string
  str_of_path :: "string \<Rightarrow> string"
  parts_of_path :: "string \<Rightarrow> path"
  process :: process

text \<open>\<^verbatim>\<open>main\<close> up to the resolved namespace: \<^verbatim>\<open>if args.file:\<close> and its block.\<close>

definition resolve_args :: "env \<Rightarrow> cli \<Rightarrow> error + namespace" where
  "resolve_args e c =
     (let args = parse_args c
      in bind_err (getattr args ''file'') (\<lambda>file.
         if truthy file
         then (case file of
                 PStr file_path \<Rightarrow>
                   bind_err (parse_config_file (read_text e) file_path) (\<lambda>config.
                   apply_config (float_of_str e) config args)
               | _ \<Rightarrow> Inl TypeError)
         else Inr args))"

subsection \<open>Arithmetic on numbers\<close>

text \<open>
  The value of a number, and its conversion to a float. The operators \<^verbatim>\<open>+\<close>, \<^verbatim>\<open>-\<close> and
  \<^verbatim>\<open>/\<close> of Python on numbers: \<^verbatim>\<open>+\<close> and \<^verbatim>\<open>-\<close> are exact on two integers, and convert
  an integer that meets a float; \<^verbatim>\<open>/\<close> always returns a float, the double nearest to
  the quotient, and raises \<^verbatim>\<open>ZeroDivisionError\<close> on a zero divisor. An operand that is
  not a number raises \<^verbatim>\<open>TypeError\<close> here or in \<^verbatim>\<open>numpy\<close>.
\<close>

definition number :: "pyval \<Rightarrow> error + rat" where
  "number v = (case v of PInt n \<Rightarrow> Inr (of_int n) | PFloat x \<Rightarrow> Inr x | _ \<Rightarrow> Inl TypeError)"

definition integer :: "pyval \<Rightarrow> error + int" where
  "integer v = (case v of PInt n \<Rightarrow> Inr n | _ \<Rightarrow> Inl TypeError)"

definition is_int :: "pyval \<Rightarrow> bool" where
  "is_int v = (case v of PInt n \<Rightarrow> True | _ \<Rightarrow> False)"

definition as_double :: "pyval \<Rightarrow> error + rat" where
  "as_double v =
     (case v of PInt n \<Rightarrow> Inr (double (of_int n)) | PFloat x \<Rightarrow> Inr x | _ \<Rightarrow> Inl TypeError)"

definition py_add :: "pyval \<Rightarrow> pyval \<Rightarrow> error + pyval" where
  "py_add v w =
     (case (v, w) of
        (PInt m, PInt n) \<Rightarrow> Inr (PInt (m + n))
      | _ \<Rightarrow> bind_err (as_double v) (\<lambda>x. bind_err (as_double w) (\<lambda>y.
               Inr (PFloat (double (x + y))))))"

definition py_sub :: "pyval \<Rightarrow> pyval \<Rightarrow> error + pyval" where
  "py_sub v w =
     (case (v, w) of
        (PInt m, PInt n) \<Rightarrow> Inr (PInt (m - n))
      | _ \<Rightarrow> bind_err (as_double v) (\<lambda>x. bind_err (as_double w) (\<lambda>y.
               Inr (PFloat (double (x - y))))))"

definition py_truediv :: "pyval \<Rightarrow> pyval \<Rightarrow> error + pyval" where
  "py_truediv v w =
     (case (v, w) of
        (PInt m, PInt n) \<Rightarrow>
          (if n = 0 then Inl ZeroDivisionError
           else Inr (PFloat (double (of_int m / of_int n))))
      | _ \<Rightarrow> bind_err (as_double v) (\<lambda>x. bind_err (as_double w) (\<lambda>y.
               if y = 0 then Inl ZeroDivisionError else Inr (PFloat (double (x / y))))))"

subsection \<open>\<^verbatim>\<open>numpy.arange\<close> and \<^verbatim>\<open>numpy.linspace\<close>\<close>

text \<open>
  \<^verbatim>\<open>numpy.arange(start, stop, step)\<close>. The length is the ceiling of
  \<^verbatim>\<open>(stop - start) / step\<close>, computed with the operators of Python; a length outside
  the range of an index raises \<^verbatim>\<open>ValueError\<close> (\<^verbatim>\<open>Maximum allowed size exceeded\<close>), and a length
  that is not positive gives the empty array. Three integers give an array of integers
  \<open>start + i * step\<close>. Otherwise the array holds doubles: the first is \<open>start\<close>, the
  second is \<^verbatim>\<open>start + step\<close> as Python computes it, and with \<open>delta\<close> their difference
  in doubles, the element \<open>i\<close> is \<open>start + i * delta\<close>, the product and the sum both
  rounded.
\<close>

definition max_intp :: int where
  "max_intp = 2 ^ 63 - 1"

definition arange :: "pyval \<Rightarrow> pyval \<Rightarrow> pyval \<Rightarrow> error + rat list" where
  "arange start stop step =
     bind_err (py_sub stop start) (\<lambda>span.
     bind_err (py_truediv span step) (\<lambda>ratio.
     bind_err (as_double ratio) (\<lambda>q.
       if max_intp < \<lceil>q\<rceil> \<or> \<lceil>q\<rceil> < - max_intp - 1 then Inl ValueError
       else if \<lceil>q\<rceil> \<le> 0 then Inr []
       else
         bind_err (py_add start step) (\<lambda>second.
         if is_int start \<and> is_int stop \<and> is_int step
         then bind_err (number start) (\<lambda>a.
              bind_err (number step) (\<lambda>s.
                Inr (map (\<lambda>i. a + of_nat i * s) [0 ..< nat \<lceil>q\<rceil>])))
         else bind_err (as_double start) (\<lambda>x0.
              bind_err (as_double second) (\<lambda>x1.
                Inr (map (\<lambda>i. if i = 0 then x0 else if i = 1 then x1
                               else double (x0 + double (of_nat i * double (x1 - x0))))
                       [0 ..< nat \<lceil>q\<rceil>])))))))"

text \<open>
  \<^verbatim>\<open>numpy.linspace(start, stop, num)\<close>: \<open>num\<close> doubles from \<open>start\<close> to \<open>stop\<close>. With
  \<open>delta\<close> the difference of the two in doubles and \<open>step\<close> the double of
  \<open>delta / (num - 1)\<close>, the element \<open>i\<close> is \<open>i * step + start\<close> (or \<open>(i / (num - 1)) * delta + start\<close>
  when the step rounds to zero), each operation rounded; the last element is \<open>stop\<close>
  itself. A negative \<open>num\<close> raises \<^verbatim>\<open>ValueError\<close>.
\<close>

definition linspace :: "pyval \<Rightarrow> pyval \<Rightarrow> pyval \<Rightarrow> error + rat list" where
  "linspace start stop num =
     bind_err (integer num) (\<lambda>n.
     if n < 0 then Inl ValueError
     else
       bind_err (as_double start) (\<lambda>a.
       bind_err (as_double stop) (\<lambda>b.
         let delta = double (b - a);
             step = double (delta / of_int (n - 1));
             y = (\<lambda>i. if n - 1 \<le> 0 then double (of_nat i * delta)
                      else if step = 0 then double (double (of_nat i / of_int (n - 1)) * delta)
                      else double (of_nat i * step))
         in Inr (map (\<lambda>i. if 1 < n \<and> int i = n - 1 then b else double (y i + a))
                   [0 ..< nat n]))))"

text \<open>
  The three branches of the mesh computation in \<^verbatim>\<open>main\<close>. Iterating over
  \<^verbatim>\<open>args.__dict__\<close> yields the attribute names, and \<^verbatim>\<open>"tstep" in arg\<close> is the substring
  test on one name.
\<close>

datatype mesh_mode = StepMode | CountMode | NoMode

definition mesh_mode :: "namespace \<Rightarrow> mesh_mode" where
  "mesh_mode args =
     (if list_ex (\<lambda>arg. py_in ''tstep'' arg) (map fst args) then StepMode
      else if list_ex (\<lambda>arg. py_in ''steps'' arg) (map fst args) then CountMode
      else NoMode)"

definition step_mesh :: "namespace \<Rightarrow> error + temperature list" where
  "step_mesh args =
     bind_err (getattr args ''tmin'') (\<lambda>tmin.
     bind_err (getattr args ''tmax'') (\<lambda>tmax.
     bind_err (getattr args ''tstep'') (\<lambda>tstep.
     bind_err (py_add tmax tstep) (\<lambda>stop.
     arange tmin stop tstep))))"

definition count_mesh :: "namespace \<Rightarrow> error + temperature list" where
  "count_mesh args =
     bind_err (getattr args ''tmin'') (\<lambda>tmin.
     bind_err (getattr args ''tmax'') (\<lambda>tmax.
     bind_err (getattr args ''steps'') (\<lambda>steps.
     linspace tmin tmax steps)))"

definition make_mesh :: "namespace \<Rightarrow> error + temperature list" where
  "make_mesh args =
     (case mesh_mode args of
        StepMode \<Rightarrow> step_mesh args
      | CountMode \<Rightarrow> count_mesh args
      | NoMode \<Rightarrow> Inl (SystemExit 1))"

section \<open>\<^verbatim>\<open>run_simulation\<close> and \<^verbatim>\<open>main\<close>\<close>

text \<open>
  The state of the world: the files below the working directory, the calls of
  \<^verbatim>\<open>subprocess.run\<close> made so far, each with the binary and the directory it was to run
  in, and whether the program runs as the superuser.
\<close>

record world =
  files :: listing
  spawned :: "(string \<times> string) list"
  superuser :: bool

text \<open>\<^verbatim>\<open>folder_path.mkdir(exist_ok=True)\<close> in the working directory.\<close>

definition mkdir_exist_ok :: "string \<Rightarrow> listing \<Rightarrow> error + listing" where
  "mkdir_exist_ok name fs =
     (case map_of fs name of
        None \<Rightarrow> Inr (fs @ [(name, Dir [])])
      | Some (Dir ds) \<Rightarrow> Inr fs
      | Some (File m c) \<Rightarrow> Inl FileExistsError)"

text \<open>The entries of a directory of the working directory, and their replacement.\<close>

definition entries_of :: "listing \<Rightarrow> string \<Rightarrow> listing" where
  "entries_of fs name = (case map_of fs name of Some (Dir ds) \<Rightarrow> ds | _ \<Rightarrow> [])"

definition with_entries :: "listing \<Rightarrow> string \<Rightarrow> listing \<Rightarrow> listing" where
  "with_entries fs name ds = AList.update name (Dir ds) fs"

text \<open>\<^verbatim>\<open>open(folder_path / "out.log", "w")\<close>: the file is created, or emptied when the
  user may write it.\<close>

definition open_w :: "bool \<Rightarrow> string \<Rightarrow> listing \<Rightarrow> error + listing" where
  "open_w su name ds =
     (case map_of ds name of
        Some (Dir x) \<Rightarrow> Inl IsADirectoryError
      | Some (File m c) \<Rightarrow>
          (if may_write su m then Inr (AList.update name (File m (Text [])) ds)
           else Inl PermissionError)
      | None \<Rightarrow> Inr (AList.update name (File rw (Text [])) ds))"

text \<open>The mode of a file of a directory (of a new file, when there is none).\<close>

definition mode_of :: "listing \<Rightarrow> string \<Rightarrow> mode" where
  "mode_of ds name = (case map_of ds name of Some (File m c) \<Rightarrow> m | _ \<Rightarrow> rw)"

text \<open>
  Lines 71 to 85 of \<^verbatim>\<open>run_simulation\<close>: the workspace is created, the entries of the
  base directory are copied into it, and the token is replaced. An exception comes with
  the files as they are when it is raised. The entries of the base directory are read
  after \<^verbatim>\<open>mkdir\<close> and before the first copy, as \<^verbatim>\<open>iterdir\<close> lists them; what is copied
  is the base as it is then, which is exact as long as no copy changes what a later copy
  of the same call reads, as is the case when the base is neither the workspace nor
  a directory above or below it.
\<close>

definition materialize :: "bool \<Rightarrow> temperature \<Rightarrow> path \<Rightarrow> listing \<Rightarrow> (error \<times> listing) + listing" where
  "materialize su t base fs =
     (let folder = folder_name t
      in case mkdir_exist_ok folder fs of
           Inl e \<Rightarrow> Inl (e, fs)
         | Inr fs1 \<Rightarrow>
             (case iterdir fs1 base of
                Inl e \<Rightarrow> Inl (e, fs1)
              | Inr items \<Rightarrow>
                  (case copy_base su base [folder] items (entries_of fs1 folder) of
                     (Some e, ws) \<Rightarrow> Inl (e, with_entries fs1 folder ws)
                   | (None, ws) \<Rightarrow>
                       (case walk su t ws of
                          (Some e, ws') \<Rightarrow> Inl (e, with_entries fs1 folder ws')
                        | (None, ws') \<Rightarrow> Inr (with_entries fs1 folder ws')))))"

text \<open>
  \<^verbatim>\<open>run_simulation(t, base, binary_path)\<close>: after the workspace is made, \<^verbatim>\<open>out.log\<close> is
  opened, the binary is run in the workspace with its output going to the log, and a
  status other than zero raises \<^verbatim>\<open>CalledProcessError\<close> (\<^verbatim>\<open>check=True\<close>). A binary that
  cannot be started raises an \<^verbatim>\<open>OSError\<close>.
\<close>

definition run_simulation :: "process \<Rightarrow> temperature \<Rightarrow> path \<Rightarrow> string \<Rightarrow> world \<Rightarrow> (error \<times> world) + world" where
  "run_simulation proc t base binary_path w =
     (let folder = folder_name t
      in case materialize (superuser w) t base (files w) of
           Inl (e, fs) \<Rightarrow> Inl (e, w\<lparr>files := fs\<rparr>)
         | Inr fs2 \<Rightarrow>
             (case open_w (superuser w) ''out.log'' (entries_of fs2 folder) of
                Inl e \<Rightarrow> Inl (e, w\<lparr>files := fs2\<rparr>)
              | Inr ws3 \<Rightarrow>
                  (let fs3 = with_entries fs2 folder ws3;
                       w3 = w\<lparr>files := fs3, spawned := spawned w @ [(binary_path, folder)]\<rparr>
                   in case proc binary_path folder fs3 of
                        None \<Rightarrow> Inl (OSError, w3)
                      | Some (status, output) \<Rightarrow>
                          (let w4 = w3\<lparr>files := with_entries fs3 folder
                                      (AList.update ''out.log''
                                         (File (mode_of ws3 ''out.log'') output) ws3)\<rparr>
                           in if status \<noteq> 0 then Inl (CalledProcessError status, w4)
                              else Inr w4))))"

text \<open>
  The loop \<^verbatim>\<open>for t in temperatures: run_simulation(t, args.base, binary_path)\<close>. An
  exception leaves the loop at once.
\<close>

definition string_of :: "pyval \<Rightarrow> error + string" where
  "string_of v = (case v of PStr s \<Rightarrow> Inr s | _ \<Rightarrow> Inl TypeError)"

fun sweep :: "env \<Rightarrow> namespace \<Rightarrow> string \<Rightarrow> temperature list \<Rightarrow> world \<Rightarrow> (error \<times> world) + world" where
  "sweep e args binary_path [] w = Inr w"
| "sweep e args binary_path (t # ts) w =
     (case bind_err (getattr args ''base'') string_of of
        Inl err \<Rightarrow> Inl (err, w)
      | Inr base \<Rightarrow>
          (case run_simulation (process e) t (parts_of_path e base) binary_path w of
             Inl failure \<Rightarrow> Inl failure
           | Inr w' \<Rightarrow> sweep e args binary_path ts w'))"



text \<open>The exit status of the interpreter when an exception leaves \<^verbatim>\<open>main\<close>.\<close>

definition exit_status :: "error \<Rightarrow> int" where
  "exit_status err = (case err of SystemExit n \<Rightarrow> n | _ \<Rightarrow> 1)"


section \<open>Auxiliary definitions and example inputs\<close>

text \<open>The effect of one line on the dictionary, as a total function.\<close>

definition config_step :: "config \<Rightarrow> string \<Rightarrow> config" where
  "config_step config l =
     (if entry_line l then AList.update (entry_key l) (entry_value l) config else config)"

text \<open>The configuration file of the specification's example.\<close>

definition example_text :: string where
  "example_text = ''tmin=100'' @ [LF] @ ''tmax=300'' @ [LF] @ ''tstep=100'' @ [LF]
      @ ''# comment'' @ [LF] @ ''binary=/opt/sim''"

text \<open>The command line with no flag given.\<close>

definition default_cli :: cli where
  "default_cli = \<lparr>cli_tmin = None, cli_tmax = None, cli_tstep = None, cli_steps = None,
      cli_binary = None, cli_base = None, cli_file = None\<rparr>"

text \<open>
  \<^verbatim>\<open>str(Path(s))\<close> on a POSIX system: empty components and \<open>.\<close> components are
  dropped, the root is \<open>/\<close> (or \<open>//\<close> for exactly two leading slashes), and the empty
  path is \<open>.\<close>. The components of a relative path that does not leave the working
  directory are the names by which the system finds it from there.
\<close>

fun split_slash :: "string \<Rightarrow> string \<Rightarrow> string list" where
  "split_slash cur [] = [cur]"
| "split_slash cur (c # cs) =
     (if c = CHR ''/'' then cur # split_slash [] cs else split_slash (cur @ [c]) cs)"

definition posix_parts :: "string \<Rightarrow> path" where
  "posix_parts s = filter (\<lambda>p. p \<noteq> [] \<and> p \<noteq> ''.'') (split_slash [] s)"

definition posix_root :: "string \<Rightarrow> string" where
  "posix_root s =
     (if prefix ''//'' s \<and> \<not> prefix ''///'' s then ''//''
      else if prefix ''/'' s then ''/'' else [])"

fun join_slash :: "string list \<Rightarrow> string" where
  "join_slash [] = []"
| "join_slash [p] = p"
| "join_slash (p # q # ps) = p @ ''/'' @ join_slash (q # ps)"

definition posix_str :: "string \<Rightarrow> string" where
  "posix_str s =
     (if posix_root s = [] \<and> posix_parts s = [] then ''.''
      else posix_root s @ join_slash (posix_parts s))"

text \<open>
  Environments for the examples, on Linux: a reader of floats that understands integer
  literals, and a file store that holds one configuration file.
\<close>

definition int_literal_float :: "string \<Rightarrow> rat option" where
  "int_literal_float s =
     (case py_int_of_str s of Inl e \<Rightarrow> None | Inr n \<Rightarrow> Some (double (of_int n)))"

definition example_env :: env where
  "example_env = \<lparr>float_of_str = int_literal_float,
      read_text = (\<lambda>p. if p = ''sweep.cfg'' then Inr example_text else Inl FileNotFoundError),
      platform = ''linux'', str_of_path = posix_str, parts_of_path = posix_parts,
      process = (\<lambda>binary folder fs. Some (0, Text ''done''))\<rparr>"

definition env_reading :: "(string \<Rightarrow> rat option) \<Rightarrow> string \<Rightarrow> env" where
  "env_reading f text = \<lparr>float_of_str = f, read_text = (\<lambda>p. Inr text),
      platform = ''linux'', str_of_path = posix_str, parts_of_path = posix_parts,
      process = (\<lambda>binary folder fs. None)\<rparr>"


text \<open>
  In a directory no two entries have the same name: the trees of a real file system
  satisfy \<open>distinct_names\<close>.
\<close>

function distinct_names :: "listing \<Rightarrow> bool" where
  "distinct_names [] = True"
| "distinct_names ((name, File m c) # es) = (name \<notin> fst ` set es \<and> distinct_names es)"
| "distinct_names ((name, Dir ds) # es) =
     (name \<notin> fst ` set es \<and> distinct_names ds \<and> distinct_names es)"
  by pat_completeness auto
termination
  by (relation "measure tree_size") (auto simp add: tree_size_def)

text \<open>What \<^const>\<open>replace_temperature_strings\<close> makes of one entry.\<close>

fun replace_node :: "temperature \<Rightarrow> string \<Rightarrow> node \<Rightarrow> node" where
  "replace_node t name (File m c) =
     File m (case rewrite_file t name c of None \<Rightarrow> c | Some c' \<Rightarrow> c')"
| "replace_node t name (Dir ds) = Dir (replace_temperature_strings ds t)"


text \<open>A path names a directory of the tree.\<close>

definition is_dir :: "listing \<Rightarrow> path \<Rightarrow> bool" where
  "is_dir fs p = (case lookup fs p of Some (Dir ds) \<Rightarrow> True | _ \<Rightarrow> False)"

text \<open>
  Two directories are apart when their paths start with different names: then neither
  is the other, nor above or below it.
\<close>

definition apart :: "path \<Rightarrow> path \<Rightarrow> bool" where
  "apart src dst = (src \<noteq> [] \<and> dst \<noteq> [] \<and> hd src \<noteq> hd dst)"

text \<open>Every file of a tree is writable, or readable, for the user; some file of a tree
  stops the walk of \<^const>\<open>walk\<close> with \<^verbatim>\<open>PermissionError\<close>.\<close>

function files_writable :: "listing \<Rightarrow> bool" where
  "files_writable [] = True"
| "files_writable ((name, File m c) # es) = (writable m \<and> files_writable es)"
| "files_writable ((name, Dir ds) # es) = (files_writable ds \<and> files_writable es)"
  by pat_completeness auto
termination
  by (relation "measure tree_size") (auto simp add: tree_size_def)

function files_readable :: "listing \<Rightarrow> bool" where
  "files_readable [] = True"
| "files_readable ((name, File m c) # es) = (readable m \<and> files_readable es)"
| "files_readable ((name, Dir ds) # es) = (files_readable ds \<and> files_readable es)"
  by pat_completeness auto
termination
  by (relation "measure tree_size") (auto simp add: tree_size_def)

function tree_refused :: "bool \<Rightarrow> temperature \<Rightarrow> listing \<Rightarrow> bool" where
  "tree_refused su t [] = False"
| "tree_refused su t ((name, File m c) # es) = (refused su t name m c \<or> tree_refused su t es)"
| "tree_refused su t ((name, Dir ds) # es) = (tree_refused su t ds \<or> tree_refused su t es)"
  by pat_completeness auto
termination
  by (relation "measure (\<lambda>(s, t, es). tree_size es)") (auto simp add: tree_size_def)

text \<open>The tree of the examples: a base directory with a text file that holds the token,
  a file with an excluded suffix, a file that is not text, and a subdirectory.\<close>

definition example_base :: listing where
  "example_base =
     [(''inpsd.dat'', File rw (Text ''T=TEMP K'')),
      (''data.bin'', File rw (Text ''TEMP'')),
      (''blob'', File rw (Undecodable ''xx'')),
      (''sub'', Dir [(''a.txt'', File rw (Text ''TEMP TEMP'')), (''b.txt'', File rw (Text ''none''))])]"

definition example_files :: listing where
  "example_files = [(''Base'', Dir example_base)]"

text \<open>
  A sweep of four temperatures over a base directory with one file, where the binary
  exits with status 2 in the third workspace; the world before the sweep, after its
  first two runs, and when it ends.
\<close>

definition small_files :: listing where
  "small_files = [(''Base'', Dir [(''inpsd.dat'', File rw (Text ''T=TEMP K''))])]"

definition failing_env :: env where
  "failing_env = \<lparr>float_of_str = int_literal_float,
      read_text = (\<lambda>p. Inl FileNotFoundError),
      platform = ''linux'', str_of_path = posix_str, parts_of_path = posix_parts,
      process = (\<lambda>binary folder fs.
         if folder = ''T_0300'' then Some (2, Text ''boom'') else Some (0, Text ''done''))\<rparr>"



definition start_world :: world where
  "start_world = \<lparr>files = small_files, spawned = [], superuser = False\<rparr>"



text \<open>The example tree after the workspace for 310.4 is materialized.\<close>

definition example_materialized :: listing where
  "example_materialized =
     [(''Base'', Dir example_base),
      (''T_0310'',
       Dir [(''inpsd.dat'', File rw (Text ''T=310 K'')),
            (''data.bin'', File rw (Text ''TEMP'')),
            (''blob'', File rw (Undecodable ''xx'')),
            (''sub'', Dir [(''a.txt'', File rw (Text ''310 310'')), (''b.txt'', File rw (Text ''none''))])])]"

section \<open>Lemmas on text and numbers\<close>

lemma digit_val_digit_char: "d < 10 \<Longrightarrow> digit_val (digit_char d) = d"
  by (simp add: digit_val_def digit_char_def)

lemma is_digit_digit_char: "d < 10 \<Longrightarrow> is_digit (digit_char d)"
  by (simp add: is_digit_def digit_char_def)

lemma decimal_value_snoc: "decimal_value (s @ [c]) = 10 * decimal_value s + digit_val c"
  by (simp add: decimal_value_def)

lemma decimal_value_digits: "decimal_value (digits n) = n"
proof (induction n rule: digits.induct)
  case (1 n)
  show ?case
  proof (cases "n < 10")
    case True
    then show ?thesis by (simp add: digits.simps [of n] decimal_value_def digit_val_digit_char)
  next
    case False
    with 1 show ?thesis
      by (simp add: digits.simps [of n] decimal_value_snoc digit_val_digit_char)
  qed
qed

lemma decimal_value_zeros: "decimal_value (replicate k CHR ''0'' @ s) = decimal_value s"
  by (induction k) (simp_all add: decimal_value_def digit_val_def)

lemma digits_are_digits: "c \<in> set (digits n) \<Longrightarrow> is_digit c"
proof (induction n rule: digits.induct)
  case (1 n)
  show ?case
  proof (cases "n < 10")
    case True
    with 1(2) show ?thesis by (simp add: digits.simps [of n] is_digit_digit_char)
  next
    case False
    with 1 show ?thesis
      by (auto simp add: digits.simps [of n] is_digit_digit_char)
  qed
qed

lemma digits_not_Nil: "digits n \<noteq> []"
  by (subst digits.simps) simp

lemma is_digit_zero: "is_digit CHR ''0''"
  by (simp add: is_digit_def)

lemma is_digit_not_space: "is_digit c \<Longrightarrow> \<not> is_space c"
  by (auto simp add: is_digit_def is_space_def whitespace_def)

lemma is_digit_not_special:
  "is_digit c \<Longrightarrow> c \<noteq> CHR ''-'' \<and> c \<noteq> CHR ''+'' \<and> c \<noteq> CHR ''_'' \<and> c \<notin> set ''TEMP''"
  by (auto simp add: is_digit_def)

lemma py_strip_id:
  assumes "s \<noteq> []" "\<not> is_space (hd s)" "\<not> is_space (last s)"
  shows "py_strip s = s"
proof -
  from assms have a: "dropWhile is_space s = s" by (cases s) simp_all
  from assms have "dropWhile is_space (rev s) = rev s"
    by (cases "rev s") (simp_all add: hd_rev)
  with a show ?thesis by (simp add: py_strip_def)
qed

lemma digit_groups_digits:
  "s \<noteq> [] \<Longrightarrow> \<forall>c\<in>set s. is_digit c \<Longrightarrow> digit_groups s"
proof (induction s rule: digit_groups.induct)
  case (3 c d cs)
  then show ?case using is_digit_not_special [of d] by auto
qed simp_all

lemma filter_digits: "\<forall>c\<in>set s. is_digit c \<Longrightarrow> filter (\<lambda>x. x \<noteq> CHR ''_'') s = s"
  using is_digit_not_special by (induction s) auto

lemma py_int_of_digit_string:
  assumes "s \<noteq> []" "\<forall>c\<in>set s. is_digit c"
  shows "py_int_of_str s = Inr (int (decimal_value s))"
proof -
  from assms have h: "is_digit (hd s)" "is_digit (last s)" by simp_all
  then have "py_strip s = s"
    using assms(1) by (simp add: py_strip_id is_digit_not_space)
  moreover obtain c cs where s: "s = c # cs" using assms(1) by (cases s) auto
  moreover have "c \<noteq> CHR ''-''" "c \<noteq> CHR ''+''"
    using h(1) is_digit_not_special [of c] by (simp_all add: s)
  ultimately show ?thesis
    using assms digit_groups_digits [of s] filter_digits [of s]
    by (simp add: py_int_of_str_def Let_def)
qed

lemma py_int_of_minus_digit_string:
  assumes "s \<noteq> []" "\<forall>c\<in>set s. is_digit c"
  shows "py_int_of_str (CHR ''-'' # s) = Inr (- int (decimal_value s))"
proof -
  have "\<not> is_space CHR ''-''" by code_simp
  moreover have "\<not> is_space (last s)"
    using assms by (simp add: is_digit_not_space)
  ultimately have "py_strip (CHR ''-'' # s) = CHR ''-'' # s"
    using assms(1) by (simp add: py_strip_id)
  then show ?thesis
    using assms digit_groups_digits [of s] filter_digits [of s]
    by (simp add: py_int_of_str_def Let_def)
qed

lemma padded_digits:
  "replicate k CHR ''0'' @ digits n \<noteq> [] \<and> (\<forall>c\<in>set (replicate k CHR ''0'' @ digits n). is_digit c)"
  using digits_not_Nil [of n] by (auto simp add: is_digit_zero digits_are_digits)

lemma py_int_of_format_04d: "py_int_of_str (format_04d n) = Inr n"
proof (cases "n < 0")
  case True
  then show ?thesis
    using padded_digits [of "3 - length (digits (nat \<bar>n\<bar>))" "nat \<bar>n\<bar>"]
    by (simp add: format_04d_def Let_def py_int_of_minus_digit_string
        decimal_value_zeros decimal_value_digits)
next
  case False
  then show ?thesis
    using padded_digits [of "4 - length (digits (nat \<bar>n\<bar>))" "nat \<bar>n\<bar>"]
    by (simp add: format_04d_def Let_def py_int_of_digit_string
        decimal_value_zeros decimal_value_digits)
qed

lemma py_int_of_py_str_int: "py_int_of_str (py_str_int n) = Inr n"
proof (cases "n < 0")
  case True
  then show ?thesis
    using digits_not_Nil [of "nat (- n)"] digits_are_digits [of _ "nat (- n)"]
    by (simp add: py_str_int_def py_int_of_minus_digit_string decimal_value_digits)
next
  case False
  then show ?thesis
    using digits_not_Nil [of "nat n"] digits_are_digits [of _ "nat n"]
    by (simp add: py_str_int_def py_int_of_digit_string decimal_value_digits)
qed

lemma format_04d_inj:
  assumes "format_04d n = format_04d m"
  shows "n = m"
proof -
  have "Inr n = py_int_of_str (format_04d n)" by (simp only: py_int_of_format_04d)
  also have "\<dots> = py_int_of_str (format_04d m)" by (simp only: assms)
  also have "\<dots> = Inr m" by (simp only: py_int_of_format_04d)
  finally show ?thesis by simp
qed

lemma length_format_04d: "4 \<le> length (format_04d n)"
  by (simp add: format_04d_def Let_def) arith

lemma py_round_tie: "py_round (of_int k + 1 / 2) = (if even k then k else k + 1)"
proof -
  have "\<lfloor>of_int k + (1 / 2 :: rat)\<rfloor> = k" by linarith
  then show ?thesis by (simp add: py_round_def Let_def)
qed

lemma py_round_nearest: "\<bar>x - of_int (py_round x)\<bar> \<le> 1 / 2"
proof -
  have "of_int \<lfloor>x\<rfloor> \<le> x" "x < of_int \<lfloor>x\<rfloor> + 1" by linarith+
  then show ?thesis by (auto simp add: py_round_def Let_def)
qed

lemma sublist_Cons_no_head:
  "old \<noteq> [] \<Longrightarrow> hd old \<noteq> a \<Longrightarrow> sublist old (a # ys) = sublist old ys"
  by (cases old) (auto simp add: sublist_Cons_right)

lemma sublist_append_foreign:
  "old \<noteq> [] \<Longrightarrow> hd old \<notin> set new \<Longrightarrow> sublist old (new @ ys) = sublist old ys"
  by (induction new) (simp_all add: sublist_Cons_no_head)

lemma prefix_py_replace:
  "old \<noteq> [] \<Longrightarrow> new \<noteq> [] \<Longrightarrow> prefix p (py_replace old new s) \<Longrightarrow>
   set p \<inter> set new = {} \<Longrightarrow> prefix p s"
proof (induction old new s arbitrary: p rule: py_replace.induct)
  case (1 old new)
  then show ?case by simp
next
  case (2 old new c cs)
  show ?case
  proof (cases p)
    case Nil
    then show ?thesis by simp
  next
    case (Cons x p')
    show ?thesis
    proof (cases "prefix old (c # cs)")
      case True
      with 2 Cons have "prefix (x # p') (new @ py_replace old new (drop (length old) (c # cs)))"
        by simp
      moreover obtain y new' where "new = y # new'" using 2(5) by (cases new) auto
      ultimately have "x \<in> set new" by auto
      with 2(7) Cons show ?thesis by auto
    next
      case False
      with 2 Cons have "x = c" "prefix p' (py_replace old new cs)" by simp_all
      moreover from 2(7) Cons have "set p' \<inter> set new = {}" by auto
      ultimately show ?thesis using 2(3) [of p'] 2(4,5) False Cons by simp
    qed
  qed
qed

lemma py_replace_no_occurrence:
  "old \<noteq> [] \<Longrightarrow> new \<noteq> [] \<Longrightarrow> set old \<inter> set new = {} \<Longrightarrow>
   \<not> sublist old (py_replace old new s)"
proof (induction old new s rule: py_replace.induct)
  case (1 old new)
  then show ?case by simp
next
  case (2 old new c cs)
  from 2(4) obtain o1 old' where old: "old = o1 # old'" by (cases old) auto
  with 2(6) have hd_new: "hd old \<notin> set new" by auto
  show ?case
  proof (cases "prefix old (c # cs)")
    case True
    with 2 show ?thesis by (simp add: sublist_append_foreign hd_new)
  next
    case False
    have "\<not> prefix old (c # py_replace old new cs)"
    proof
      assume a: "prefix old (c # py_replace old new cs)"
      have "prefix (o1 # old') (c # py_replace old new cs)"
        using a by (subst (asm) old) simp
      then have "o1 = c" "prefix old' (py_replace old new cs)" by simp_all
      moreover from 2(6) old have "set old' \<inter> set new = {}" by auto
      ultimately have "prefix old' cs" using prefix_py_replace [OF 2(4,5)] by blast
      with \<open>o1 = c\<close> old False show False by simp
    qed
    with 2 False show ?thesis by (simp add: sublist_Cons_right)
  qed
qed

lemma py_replace_absent:
  "old \<noteq> [] \<Longrightarrow> \<not> sublist old s \<Longrightarrow> py_replace old new s = s"
proof (induction old new s rule: py_replace.induct)
  case (1 old new)
  then show ?case by simp
next
  case (2 old new c cs)
  then show ?case by (auto simp add: sublist_Cons_right)
qed

lemma py_replace_idem:
  "old \<noteq> [] \<Longrightarrow> new \<noteq> [] \<Longrightarrow> set old \<inter> set new = {} \<Longrightarrow>
   py_replace old new (py_replace old new s) = py_replace old new s"
  by (simp add: py_replace_absent py_replace_no_occurrence)

lemma temperature_text_chars:
  "temperature_text t \<noteq> [] \<and> set ''TEMP'' \<inter> set (temperature_text t) = {}"
proof -
  have "c \<in> set (digits n) \<Longrightarrow> c \<notin> set ''TEMP''" for c n
    using digits_are_digits [of c n] is_digit_not_special [of c] by blast
  then show ?thesis
    using digits_not_Nil by (auto simp add: temperature_text_def py_str_int_def)
qed

lemma replace_TEMP_no_TEMP: "\<not> sublist ''TEMP'' (replace_TEMP t s)"
  using temperature_text_chars [of t]
  by (simp add: replace_TEMP_def py_replace_no_occurrence)

lemma replace_TEMP_idem: "replace_TEMP t (replace_TEMP t s) = replace_TEMP t s"
  using temperature_text_chars [of t]
  by (simp add: replace_TEMP_def py_replace_idem)
section \<open>Lemmas on the floating-point arithmetic\<close>

lemma pow2_powi: "pow2 k = 2 powi k"
  by (simp add: pow2_def power_int_def field_simps)

lemma pow2_add: "pow2 (a + b) = pow2 a * pow2 b"
  by (simp add: pow2_powi power_int_add)

lemma pow2_pos: "0 < pow2 k"
  by (simp add: pow2_def)

lemma pow2_mono: "a \<le> b \<Longrightarrow> pow2 a \<le> pow2 b"
  by (simp add: pow2_powi power_int_increasing)

lemma pow2_strict_mono: "a < b \<Longrightarrow> pow2 a < pow2 b"
  by (simp add: pow2_powi power_int_strict_increasing)

lemma pow2_nat: "pow2 (int n) = 2 ^ n"
  by (simp add: pow2_def)

lemma py_round_of_int: "py_round (of_int m) = m"
  by (simp add: py_round_def)

lemma py_round_bounds: "x - 1 / 2 \<le> of_int (py_round x) \<and> of_int (py_round x) \<le> x + 1 / 2"
proof -
  define d where "d = x - of_int \<lfloor>x\<rfloor>"
  have d: "0 \<le> d" "d < 1" unfolding d_def by linarith+
  have x: "x = of_int \<lfloor>x\<rfloor> + d" by (simp add: d_def)
  have "py_round x = (if d < 1 / 2 then \<lfloor>x\<rfloor> else if 1 / 2 < d then \<lfloor>x\<rfloor> + 1
      else if even \<lfloor>x\<rfloor> then \<lfloor>x\<rfloor> else \<lfloor>x\<rfloor> + 1)"
    by (simp add: py_round_def Let_def d_def)
  then consider "py_round x = \<lfloor>x\<rfloor>" "d \<le> 1 / 2" | "py_round x = \<lfloor>x\<rfloor> + 1" "1 / 2 \<le> d"
    by (auto split: if_splits)
  then show ?thesis
  proof cases
    case 1
    then show ?thesis using d x by simp
  next
    case 2
    then show ?thesis using d x by simp
  qed
qed

lemma pow2_of_int: "0 \<le> k \<Longrightarrow> pow2 k = of_int (2 ^ nat k)"
  by (simp add: pow2_def)

lemma exponent_bounds:
  assumes "x \<noteq> 0"
  shows "pow2 (exponent x) \<le> \<bar>x\<bar> \<and> \<bar>x\<bar> < pow2 (exponent x + 1)"
proof -
  obtain a b where q: "quotient_of \<bar>x\<bar> = (a, b)" by (cases "quotient_of \<bar>x\<bar>")
  then have b: "0 < b" and x: "\<bar>x\<bar> = of_int a / of_int b"
    using quotient_of_denom_pos quotient_of_div by blast+
  have xp: "0 < \<bar>x\<bar>" using assms by simp
  with x b have a: "0 < a" by (simp add: zero_less_divide_iff)
  define la where "la = bitlen a"
  define lb where "lb = bitlen b"
  have la1: "1 \<le> la" and lb1: "1 \<le> lb"
    using a b by (simp_all add: la_def lb_def bitlen_alt_def)
  from bitlen_bounds [OF a] have "2 ^ nat (la - 1) \<le> a" "a < 2 ^ nat la" by (simp_all add: la_def)
  then have "(of_int (2 ^ nat (la - 1)) :: rat) \<le> of_int a" "(of_int a :: rat) < of_int (2 ^ nat la)"
    by (simp_all only: of_int_le_iff of_int_less_iff)
  then have ab: "pow2 (la - 1) \<le> of_int a" "of_int a < pow2 la"
    using la1 by (simp_all add: pow2_of_int)
  from bitlen_bounds [OF b] have "2 ^ nat (lb - 1) \<le> b" "b < 2 ^ nat lb" by (simp_all add: lb_def)
  then have "(of_int (2 ^ nat (lb - 1)) :: rat) \<le> of_int b" "(of_int b :: rat) < of_int (2 ^ nat lb)"
    by (simp_all only: of_int_le_iff of_int_less_iff)
  then have bb: "pow2 (lb - 1) \<le> of_int b" "of_int b < pow2 lb"
    using lb1 by (simp_all add: pow2_of_int)
  have bpos: "(0::rat) < of_int b" using b by simp
  have up: "\<bar>x\<bar> < pow2 (la - lb + 1)"
  proof -
    have "of_int a < pow2 la" by (rule ab)
    also have "pow2 la = pow2 (la - lb + 1) * pow2 (lb - 1)"
      by (simp add: pow2_add [symmetric])
    also have "\<dots> \<le> pow2 (la - lb + 1) * of_int b"
      using bb(1) pow2_pos [of "la - lb + 1"] by simp
    finally show ?thesis using bpos by (simp add: x pos_divide_less_eq)
  qed
  have lo: "pow2 (la - lb - 1) < \<bar>x\<bar>"
  proof -
    have "pow2 (la - lb - 1) * of_int b < pow2 (la - lb - 1) * pow2 lb"
      using bb(2) pow2_pos [of "la - lb - 1"] by simp
    also have "\<dots> = pow2 (la - 1)" by (simp add: pow2_add [symmetric])
    also have "\<dots> \<le> of_int a" by (rule ab)
    finally show ?thesis using bpos by (simp add: x pos_less_divide_eq)
  qed
  have e: "exponent x = (if pow2 (la - lb) \<le> \<bar>x\<bar> then la - lb else la - lb - 1)"
    by (simp add: exponent_def q la_def lb_def Let_def)
  show ?thesis
  proof (cases "pow2 (la - lb) \<le> \<bar>x\<bar>")
    case True
    with e up show ?thesis by simp
  next
    case False
    with e lo show ?thesis by simp
  qed
qed

lemma exponent_less:
  assumes "x \<noteq> 0" "\<bar>x\<bar> < pow2 n"
  shows "exponent x < n"
proof (rule ccontr)
  assume "\<not> exponent x < n"
  then have "pow2 n \<le> pow2 (exponent x)" by (simp add: pow2_mono)
  with exponent_bounds [OF assms(1)] assms(2) show False by simp
qed

lemma exponent_ge:
  assumes "x \<noteq> 0" "pow2 n \<le> \<bar>x\<bar>"
  shows "n \<le> exponent x"
proof (rule ccontr)
  assume "\<not> n \<le> exponent x"
  then have "pow2 (exponent x + 1) \<le> pow2 n" by (simp add: pow2_mono)
  with exponent_bounds [OF assms(1)] assms(2) show False by simp
qed

lemma double_exact:
  assumes "x = of_int m * pow2 k" "\<bar>m\<bar> < 2 ^ 53" "- 1074 \<le> k"
  shows "double x = x"
proof (cases "x = 0")
  case True
  then show ?thesis by (simp add: double_def)
next
  case False
  define j where "j = max (exponent x) (- 1022) - 52"
  have "\<bar>x\<bar> = of_int \<bar>m\<bar> * pow2 k" using pow2_pos [of k] by (simp add: assms(1) abs_mult)
  also have "\<dots> < of_int (2 ^ 53) * pow2 k"
    using assms(2) pow2_pos [of k] by (simp only: mult_less_cancel_right_pos of_int_less_iff)
  also have "\<dots> = pow2 53 * pow2 k" by (simp add: pow2_def)
  also have "\<dots> = pow2 (53 + k)" by (simp only: pow2_add)
  finally have "exponent x < 53 + k" using exponent_less [OF False] by simp
  with assms(3) have jk: "j \<le> k" by (simp add: j_def)
  have "x / pow2 j = of_int m * (pow2 k / pow2 j)" by (simp add: assms(1))
  also have "pow2 k / pow2 j = pow2 (k - j)"
    using pow2_add [of "k - j" j] pow2_pos [of j] by (simp add: field_simps)
  also have "pow2 (k - j) = of_int (2 ^ nat (k - j))" using jk by (simp add: pow2_of_int)
  finally have "x / pow2 j = of_int (m * 2 ^ nat (k - j))" by simp
  then have "of_int (py_round (x / pow2 j)) * pow2 j = x / pow2 j * pow2 j"
    by (simp only: py_round_of_int)
  also have "\<dots> = x" using pow2_pos [of j] by simp
  finally show ?thesis using False by (simp add: double_def j_def Let_def)
qed

lemma double_of_int: "\<bar>m\<bar> < 2 ^ 53 \<Longrightarrow> double (of_int m) = of_int m"
  using double_exact [of "of_int m" m 0] by (simp add: pow2_def)

lemma double_quotient_ceiling:
  assumes "0 < p" "0 < q" "p < 2 ^ 53" "q < 2 ^ 53"
  shows "\<lceil>double (of_int p / of_int q)\<rceil> = \<lceil>(of_int p / of_int q :: rat)\<rceil>"
proof -
  define x :: rat where "x = of_int p / of_int q"
  define k where "k = \<lfloor>x\<rfloor>"
  have qpos: "(0::rat) < of_int q" using assms(2) by simp
  have xpos: "0 < x" using assms(1,2) by (simp add: x_def)
  then have x0: "x \<noteq> 0" by simp
  have qx: "of_int q * x = of_int p" using qpos by (simp add: x_def)
  show ?thesis
  proof (cases "x = of_int k")
    case True
    have "x \<le> of_int p"
    proof -
      have "1 \<le> (of_int q :: rat)" using assms(2) by simp
      then have "1 * x \<le> of_int q * x" using xpos by (simp only: mult_le_cancel_right_pos)
      then show ?thesis by (simp add: qx)
    qed
    with True xpos have "0 < k" "k \<le> p" by simp_all
    with assms(3) have "\<bar>k\<bar> < 2 ^ 53" by simp
    from double_of_int [OF this] True show ?thesis unfolding x_def [symmetric] by simp
  next
    case False
    have kx: "of_int k < x" "x < of_int k + 1" using False unfolding k_def by linarith+
    have k0: "0 \<le> k" using xpos by (simp add: k_def)
    define e where "e = exponent x"
    have eb: "pow2 e \<le> x" "x < pow2 (e + 1)"
      using exponent_bounds [OF x0] xpos by (simp_all add: e_def)
    have xp: "x \<le> of_int p"
    proof -
      have "1 \<le> (of_int q :: rat)" using assms(2) by simp
      then have "1 * x \<le> of_int q * x" using xpos by (simp only: mult_le_cancel_right_pos)
      then show ?thesis by (simp add: qx)
    qed
    have "x < pow2 53" using xp assms(3) by (simp add: pow2_def) 
    then have e52: "e \<le> 52" using exponent_less [OF x0, of 53] xpos by (simp add: e_def)
    have "(1::rat) \<le> of_int p" using assms(1) by simp
    then have "1 \<le> of_int q * x" by (simp add: qx)
    moreover have "(of_int q :: rat) < pow2 53" using assms(4) by (simp add: pow2_def)
    ultimately have "1 < pow2 53 * x" using xpos
      by (meson less_le_trans mult_strict_right_mono not_le order_less_imp_le)
    then have "pow2 (- 53) \<le> \<bar>x\<bar>" using xpos by (simp add: pow2_def field_simps)
    then have e53: "- 53 \<le> e" using exponent_ge [OF x0] by (simp add: e_def)
    define j where "j = e - 52"
    have j: "max (exponent x) (- 1022) - 52 = j" using e53 by (simp add: j_def e_def)
    define N :: int where "N = 2 ^ nat (- j)"
    have Npos: "0 < N" by (simp add: N_def)
    have j0: "j \<le> 0" using e52 by (simp add: j_def)
    have Nq: "of_int N * pow2 j = 1"
      using pow2_add [of "- j" j] j0 by (simp add: N_def pow2_of_int pow2_def)
    have inv: "x / pow2 j = x * of_int N"
      using Nq pow2_pos [of j] by (simp add: field_simps)
    define r where "r = py_round (x / pow2 j)"
    have d: "double x = of_int r * pow2 j"
      using x0 by (simp add: double_def j r_def Let_def)
    have up: "of_int r \<le> (of_int k + 1) * (of_int N :: rat)"
    proof -
      have "x * of_int N < (of_int k + 1) * of_int N" using kx(2) Npos by simp
      then have "x * of_int N < of_int ((k + 1) * N)" by simp
      then have "x * of_int N \<le> of_int ((k + 1) * N) - 1 / 2 \<or> of_int ((k + 1) * N) - 1 / 2 < x * of_int N"
        by linarith
      have "py_round (x * of_int N) \<le> \<lceil>x * of_int N\<rceil>"
      proof -
        have "of_int \<lfloor>x * of_int N\<rfloor> \<le> x * of_int N" by linarith
        then show ?thesis by (auto simp add: py_round_def Let_def ceiling_altdef)
      qed
      also have "\<dots> \<le> (k + 1) * N"
        using \<open>x * of_int N < of_int ((k + 1) * N)\<close> by (simp add: ceiling_le_iff)
      finally have "r \<le> (k + 1) * N" by (simp add: r_def inv)
      then have "(of_int r :: rat) \<le> of_int ((k + 1) * N)" by (simp only: of_int_le_iff)
      then show ?thesis by simp
    qed
    have lo: "of_int k * (of_int N :: rat) < of_int r"
    proof -
      have "of_int q * pow2 e \<le> of_int q * x" using eb(1) qpos by simp
      also have "\<dots> = of_int p" by (rule qx)
      also have "\<dots> < pow2 53" using assms(3) by (simp add: pow2_def)
      finally have "of_int q * pow2 e < pow2 53" .
      moreover have "pow2 53 = pow2 (53 - e) * pow2 e" by (simp add: pow2_add [symmetric])
      ultimately have qn: "of_int q < pow2 (53 - e)" using pow2_pos [of e] by simp
      have "pow2 (53 - e) = 2 * of_int N"
        using pow2_add [of 1 "- j"] j0 by (simp add: N_def j_def pow2_of_int pow2_def)
      with qn have q2: "(of_int q :: rat) < 2 * of_int N" by simp
      have "of_int (q * k) < (of_int p :: rat)" using kx(1) qpos qx
        by (metis mult_less_cancel_left_pos of_int_mult)
      then have "q * k < p" by (simp only: of_int_less_iff)
      then have "q * k + 1 \<le> p" by simp
      then have "(of_int (q * k + 1) :: rat) \<le> of_int p" by (simp only: of_int_le_iff)
      then have "of_int q * of_int k + 1 \<le> of_int q * x" by (simp add: qx)
      then have "1 \<le> of_int q * (x - of_int k)" by (simp add: algebra_simps)
      also have "\<dots> < 2 * of_int N * (x - of_int k)" using q2 kx(1) by simp
      finally have "1 / 2 < (x - of_int k) * of_int N" by (simp add: algebra_simps)
      then have "of_int k * of_int N + 1 / 2 < x * of_int N" by (simp add: algebra_simps)
      moreover have "x * of_int N - 1 / 2 \<le> of_int r"
        using py_round_bounds [of "x / pow2 j"] by (simp add: r_def inv)
      ultimately show ?thesis by linarith
    qed
    have "of_int r * pow2 j \<le> (of_int k + 1) * of_int N * pow2 j"
      using up pow2_pos [of j] by (simp only: mult_le_cancel_right_pos)
    then have u2: "of_int r * pow2 j \<le> of_int k + 1" using Nq by (simp add: mult.assoc)
    have "of_int k * of_int N * pow2 j < of_int r * pow2 j"
      using lo pow2_pos [of j] by (simp only: mult_less_cancel_right_pos)
    then have l2: "of_int k < of_int r * pow2 j" using Nq by (simp add: mult.assoc)
    have "\<lceil>of_int r * pow2 j\<rceil> = k + 1" using u2 l2 by (simp add: ceiling_unique)
    moreover have "\<lceil>x\<rceil> = k + 1" using kx by (simp add: ceiling_unique)
    ultimately show ?thesis unfolding x_def [symmetric] d by simp
  qed
qed

section \<open>Lemmas on the configuration and the mesh\<close>

lemma py_in_single: "py_in [c] s = (c \<in> set s)"
  by (induction s) (auto simp add: py_in_def sublist_Cons_right)

lemma in_set_dropWhile: "x \<in> set s \<Longrightarrow> \<not> P x \<Longrightarrow> x \<in> set (dropWhile P s)"
  by (induction s) auto

lemma in_set_py_strip: "x \<in> set s \<Longrightarrow> \<not> is_space x \<Longrightarrow> x \<in> set (py_strip s)"
  by (simp add: py_strip_def in_set_dropWhile)

lemma equals_not_space: "\<not> is_space CHR ''=''"
  by code_simp

lemma config_line_entry:
  "entry_line l \<Longrightarrow>
   config_line config l = Inr (AList.update (entry_key l) (entry_value l) config)"
  by (simp add: config_line_def entry_line_def entry_key_def entry_value_def py_in_single
      py_split1_def in_set_py_strip equals_not_space)

lemma config_line_other: "\<not> entry_line l \<Longrightarrow> config_line config l = Inr config"
  by (auto simp add: config_line_def entry_line_def py_in_single)

lemma config_lines_foldl: "config_lines config ls = Inr (foldl config_step config ls)"
  by (induction ls arbitrary: config)
     (simp_all add: config_step_def config_line_entry config_line_other)

lemma map_of_foldl_config_step:
  "map_of (foldl config_step config ls) key =
     (case last_entry ls key of None \<Rightarrow> map_of config key | Some v \<Rightarrow> Some v)"
proof (induction ls rule: rev_induct)
  case Nil
  then show ?case by (simp add: last_entry_def)
next
  case (snoc l ls)
  then show ?case
    by (auto simp add: config_step_def last_entry_def update_conv' split: list.splits)
qed

lemma distinct_foldl_config_step:
  "distinct (map fst config) \<Longrightarrow> distinct (map fst (foldl config_step config ls))"
  by (induction ls arbitrary: config) (simp_all add: config_step_def distinct_update)

lemma tstep_in_tstep: "py_in ''tstep'' ''tstep''"
  by (simp add: py_in_def)

lemma keys_setattr: "k \<in> set (map fst args) \<Longrightarrow> k \<in> set (map fst (setattr args name v))"
  by (simp add: setattr_def update_keys)

lemma keys_override:
  assumes "override conv config key args = Inr args'" "k \<in> set (map fst args)"
  shows "k \<in> set (map fst args')"
proof -
  from assms(1) obtain v where "args' = setattr args key v"
    by (auto simp add: override_def bind_err_def split: sum.splits)
  with assms(2) show ?thesis by (simp only: keys_setattr)
qed

lemma keys_apply_config:
  assumes "apply_config f config args = Inr args'" "k \<in> set (map fst args)"
  shows "k \<in> set (map fst args')"
proof -
  from assms(1) obtain a1 a2 a3 a4 a5 where
    "override (py_float f) config ''tmin'' args = Inr a1"
    "override (py_float f) config ''tmax'' a1 = Inr a2"
    "override py_int config ''tstep'' a2 = Inr a3"
    "override py_int config ''steps'' a3 = Inr a4"
    "override Inr config ''binary'' a4 = Inr a5"
    "override Inr config ''base'' a5 = Inr args'"
    by (auto simp add: apply_config_def bind_err_def split: sum.splits)
  then show ?thesis using assms(2) by (meson keys_override)
qed

lemma keys_parse_args:
  "map fst (parse_args c) = [''tmin'', ''tmax'', ''tstep'', ''steps'', ''binary'', ''base'', ''file'']"
  by (simp add: parse_args_def)

lemma keys_resolve_args:
  assumes "resolve_args e c = Inr args"
  shows "''tstep'' \<in> set (map fst args)"
proof -
  have k: "''tstep'' \<in> set (map fst (parse_args c))" by (simp add: keys_parse_args)
  show ?thesis
  proof (cases "args = parse_args c")
    case True
    with k show ?thesis by simp
  next
    case False
    with assms obtain config where "apply_config (float_of_str e) config (parse_args c) = Inr args"
      by (auto simp add: resolve_args_def Let_def bind_err_def split: sum.splits if_splits pyval.splits)
    then show ?thesis using k by (rule keys_apply_config)
  qed
qed

lemma mesh_mode_tstep:
  assumes "''tstep'' \<in> set (map fst args)"
  shows "mesh_mode args = StepMode"
proof -
  have "list_ex (\<lambda>arg. py_in ''tstep'' arg) (map fst args)"
    unfolding list_ex_iff using assms tstep_in_tstep by blast
  then show ?thesis by (simp add: mesh_mode_def)
qed

lemma as_double_error: "as_double v = Inl e \<Longrightarrow> e = TypeError"
  by (auto simp add: as_double_def split: pyval.splits)

lemma number_error: "number v = Inl e \<Longrightarrow> e = TypeError"
  by (auto simp add: number_def split: pyval.splits)

lemma py_add_error: "py_add v w = Inl e \<Longrightarrow> e = TypeError"
  by (auto simp add: py_add_def bind_err_def as_double_def split: pyval.splits)

lemma py_sub_error: "py_sub v w = Inl e \<Longrightarrow> e = TypeError"
  by (auto simp add: py_sub_def bind_err_def as_double_def split: pyval.splits)

lemma py_truediv_error: "py_truediv v w = Inl e \<Longrightarrow> e = TypeError \<or> e = ZeroDivisionError"
  by (auto simp add: py_truediv_def bind_err_def as_double_def split: pyval.splits if_splits)

lemma bind_err_Inl:
  "bind_err m f = Inl e \<Longrightarrow> m = Inl e \<or> (\<exists>x. m = Inr x \<and> f x = Inl e)"
  by (cases m) (simp_all add: bind_err_def)

lemma arange_error:
  assumes "arange start stop step = Inl e"
  shows "e = TypeError \<or> e = ZeroDivisionError \<or> e = ValueError"
proof -
  from assms consider "py_sub stop start = Inl e"
    | span where "py_truediv span step = Inl e"
    | ratio where "as_double ratio = Inl e"
    | "e = ValueError"
    | "py_add start step = Inl e"
    | "number start = Inl e" | "number step = Inl e"
    | "as_double start = Inl e" | second where "as_double second = Inl e"
    unfolding arange_def
    by (auto dest!: bind_err_Inl split: if_splits)
  then show ?thesis
    by cases (auto dest: py_sub_error py_truediv_error as_double_error py_add_error number_error)
qed

lemma step_mesh_not_exit: "step_mesh args \<noteq> Inl (SystemExit n)"
proof
  assume "step_mesh args = Inl (SystemExit n)"
  then consider "getattr args ''tmin'' = Inl (SystemExit n)"
    | "getattr args ''tmax'' = Inl (SystemExit n)"
    | "getattr args ''tstep'' = Inl (SystemExit n)"
    | v w where "py_add v w = Inl (SystemExit n)"
    | a b c where "arange a b c = Inl (SystemExit n)"
    unfolding step_mesh_def by (auto dest!: bind_err_Inl)
  then show False
    by cases (auto simp add: getattr_def dest: py_add_error arange_error split: option.splits)
qed

section \<open>Lemmas on the mesh where the arithmetic is exact\<close>

lemma as_double_exact:
  assumes "number v = Inr x" "x = of_int m * pow2 k" "\<bar>m\<bar> < 2 ^ 53" "- 1074 \<le> k"
  shows "as_double v = Inr x"
proof (cases v)
  case (PInt n)
  with assms(1) have "x = of_int n" by (simp add: number_def)
  with double_exact [OF assms(2,3,4)] PInt show ?thesis by (simp add: as_double_def)
qed (use assms(1) in \<open>simp_all add: number_def as_double_def\<close>)

lemma py_add_exact:
  assumes "number v = Inr x" "x = of_int m * pow2 k" "\<bar>m\<bar> < 2 ^ 53"
    and "number w = Inr y" "y = of_int n * pow2 k" "\<bar>n\<bar> < 2 ^ 53"
    and "\<bar>m + n\<bar> < 2 ^ 53" "- 1074 \<le> k"
  shows "\<exists>r. py_add v w = Inr r \<and> number r = Inr (x + y) \<and> is_int r = (is_int v \<and> is_int w)"
proof (cases "is_int v \<and> is_int w")
  case True
  then obtain a b where "v = PInt a" "w = PInt b"
    by (auto simp add: is_int_def split: pyval.splits)
  with assms(1,4) show ?thesis by (simp add: py_add_def number_def is_int_def)
next
  case False
  have "x + y = of_int (m + n) * pow2 k" by (simp add: assms(2,5) algebra_simps)
  from double_exact [OF this assms(7,8)] have d: "double (x + y) = x + y" .
  have "py_add v w = Inr (PFloat (double (x + y)))"
    using False as_double_exact [OF assms(1,2,3,8)] as_double_exact [OF assms(4,5,6,8)]
    by (auto simp add: py_add_def bind_err_def is_int_def split: pyval.splits)
  with d False show ?thesis by (simp add: number_def is_int_def)
qed

lemma py_sub_exact:
  assumes "number v = Inr x" "x = of_int m * pow2 k" "\<bar>m\<bar> < 2 ^ 53"
    and "number w = Inr y" "y = of_int n * pow2 k" "\<bar>n\<bar> < 2 ^ 53"
    and "\<bar>m - n\<bar> < 2 ^ 53" "- 1074 \<le> k"
  shows "\<exists>r. py_sub v w = Inr r \<and> number r = Inr (x - y)"
proof (cases "is_int v \<and> is_int w")
  case True
  then obtain a b where "v = PInt a" "w = PInt b"
    by (auto simp add: is_int_def split: pyval.splits)
  with assms(1,4) show ?thesis by (simp add: py_sub_def number_def)
next
  case False
  have "x - y = of_int (m - n) * pow2 k" by (simp add: assms(2,5) algebra_simps)
  from double_exact [OF this assms(7,8)] have d: "double (x - y) = x - y" .
  have "py_sub v w = Inr (PFloat (double (x - y)))"
    using False as_double_exact [OF assms(1,2,3,8)] as_double_exact [OF assms(4,5,6,8)]
    by (auto simp add: py_sub_def bind_err_def is_int_def split: pyval.splits)
  with d show ?thesis by (simp add: number_def)
qed

lemma py_truediv_exact:
  assumes "number v = Inr x" "x = of_int m * pow2 k" "\<bar>m\<bar> < 2 ^ 53"
    and "number w = Inr y" "y = of_int n * pow2 k" "\<bar>n\<bar> < 2 ^ 53"
    and "y \<noteq> 0" "- 1074 \<le> k"
  shows "py_truediv v w = Inr (PFloat (double (x / y)))"
proof (cases "is_int v \<and> is_int w")
  case True
  then obtain a b where "v = PInt a" "w = PInt b"
    by (auto simp add: is_int_def split: pyval.splits)
  with assms(1,4,7) show ?thesis by (auto simp add: py_truediv_def number_def)
next
  case False
  then show ?thesis
    using assms(7) as_double_exact [OF assms(1,2,3,8)] as_double_exact [OF assms(4,5,6,8)]
    by (auto simp add: py_truediv_def bind_err_def is_int_def split: pyval.splits)
qed

lemma ceiling_quotient_bounds:
  fixes p s :: int
  assumes "0 < s" "s \<le> p"
  defines "n \<equiv> \<lceil>(of_int p / of_int s :: rat)\<rceil>"
  shows "1 \<le> n" "n \<le> p" "of_int p \<le> of_int n * (of_int s :: rat)"
    "(of_int n - 1) * (of_int s :: rat) < of_int p"
proof -
  define q :: rat where "q = of_int p / of_int s"
  have spos: "(0::rat) < of_int s" using assms(1) by simp
  have qs: "q * of_int s = of_int p" using spos by (simp add: q_def)
  have "1 \<le> q" using assms(1,2) by (simp add: q_def pos_le_divide_eq)
  then show "1 \<le> n" unfolding n_def q_def [symmetric] by linarith
  have "q \<le> of_int p"
  proof -
    have "0 \<le> q" "(1::rat) \<le> of_int s" using \<open>1 \<le> q\<close> assms(1) by simp_all
    then have "q * 1 \<le> q * of_int s" by (rule mult_left_mono [rotated])
    then show ?thesis by (simp add: qs)
  qed
  then show "n \<le> p" unfolding n_def q_def [symmetric] by (simp add: ceiling_le_iff)
  have "q \<le> of_int n" "of_int n - 1 < q" unfolding n_def q_def [symmetric] by linarith+
  then have "q * of_int s \<le> of_int n * of_int s" "(of_int n - 1) * of_int s < q * of_int s"
    using spos by simp_all
  then show "of_int p \<le> of_int n * (of_int s :: rat)" "(of_int n - 1) * (of_int s :: rat) < of_int p"
    by (simp_all add: qs)
qed

lemma arange_exact:
  assumes vmin: "number vmin = Inr (of_int a * pow2 k)"
    and vmax: "number vmax = Inr (of_int b * pow2 k)"
    and vstep: "number vstep = Inr (of_int s * pow2 k)"
    and bounds: "\<bar>a\<bar> \<le> 2 ^ 50" "\<bar>b\<bar> \<le> 2 ^ 50" "s \<le> 2 ^ 50" "- 1074 \<le> k"
    and order: "0 < s" "a \<le> b"
  shows "bind_err (py_add vmax vstep) (\<lambda>stop. arange vmin stop vstep)
       = Inr (map (\<lambda>i. (of_int a + of_nat i * of_int s) * pow2 k)
                [0 ..< nat \<lceil>(of_int (b + s - a) / of_int s :: rat)\<rceil>])"
proof -
  define u where "u = pow2 k"
  have upos: "0 < u" by (simp add: u_def pow2_pos)
  define P where "P = b + s - a"
  define L where "L = \<lceil>(of_int P / of_int s :: rat)\<rceil>"
  have P: "s \<le> P" "0 < P" "P \<le> 3 * 2 ^ 50" using bounds order by (simp_all add: P_def)
  note L = ceiling_quotient_bounds [OF order(1) P(1), folded L_def]
  have sb: "\<bar>a\<bar> < 2 ^ 53" "\<bar>b\<bar> < 2 ^ 53" "\<bar>s\<bar> < 2 ^ 53" "\<bar>b + s\<bar> < 2 ^ 53"
    "\<bar>b + s - a\<bar> < 2 ^ 53" "\<bar>a + s\<bar> < 2 ^ 53"
    using bounds order by simp_all
  from py_add_exact [OF vmax refl sb(2) vstep refl sb(3) sb(4) bounds(4)]
  obtain vstop where stop: "py_add vmax vstep = Inr vstop"
    "number vstop = Inr (of_int b * pow2 k + of_int s * pow2 k)"
    "is_int vstop = (is_int vmax \<and> is_int vstep)" by blast
  have stop2: "number vstop = Inr (of_int (b + s) * pow2 k)"
    using stop(2) by (simp add: algebra_simps)
  from py_sub_exact [OF stop2 refl sb(4) vmin refl sb(1) sb(5) bounds(4)]
  obtain vspan where span: "py_sub vstop vmin = Inr vspan"
    "number vspan = Inr (of_int (b + s) * pow2 k - of_int a * pow2 k)" by blast
  have span2: "number vspan = Inr (of_int P * pow2 k)"
    using span(2) by (simp add: P_def algebra_simps)
  have sne: "of_int s * pow2 k \<noteq> 0" using order(1) pow2_pos [of k] by simp
  have Pb: "\<bar>P\<bar> < 2 ^ 53" using sb(5) by (simp add: P_def)
  have ratio: "py_truediv vspan vstep = Inr (PFloat (double (of_int P / of_int s)))"
    using py_truediv_exact [OF span2 refl Pb vstep refl sb(3) sne bounds(4)] pow2_pos [of k]
    by simp
  have "P < 2 ^ 53" "s < 2 ^ 53" using Pb sb(3) by simp_all
  from double_quotient_ceiling [OF P(2) order(1) this]
  have q: "\<lceil>double (of_int P / of_int s)\<rceil> = L" by (simp add: L_def)
  have Lmax: "\<not> (max_intp < L \<or> L < - max_intp - 1)"
    using L(1,2) P(3) by (simp add: max_intp_def)
  have Lpos: "\<not> L \<le> 0" using L(1) by simp
  from py_add_exact [OF vmin refl sb(1) vstep refl sb(3) sb(6) bounds(4)]
  obtain vsec where sec: "py_add vmin vstep = Inr vsec"
    "number vsec = Inr (of_int a * pow2 k + of_int s * pow2 k)" by blast
  have sec2: "number vsec = Inr (of_int (a + s) * pow2 k)"
    using sec(2) by (simp add: algebra_simps)
  have x0: "as_double vmin = Inr (of_int a * pow2 k)"
    using as_double_exact [OF vmin refl sb(1) bounds(4)] .
  have x1: "as_double vsec = Inr (of_int (a + s) * pow2 k)"
    using as_double_exact [OF sec2 refl sb(6) bounds(4)] .
  have delta: "double (of_int (a + s) * pow2 k - of_int a * pow2 k) = of_int s * pow2 k"
  proof -
    have "of_int (a + s) * pow2 k - of_int a * pow2 k = of_int s * pow2 k"
      by (simp add: algebra_simps)
    with double_exact [OF refl sb(3) bounds(4)] show ?thesis by simp
  qed
  have elem: "(if i = 0 then of_int a * pow2 k else if i = 1 then of_int (a + s) * pow2 k
               else double (of_int a * pow2 k + double (of_nat i * (of_int s * pow2 k))))
            = (of_int a + of_nat i * of_int s) * pow2 k"
    if "i < nat L" for i
  proof -
    have iL: "int i \<le> L - 1" using that by simp
    then have "int i * s \<le> (L - 1) * s" using order(1) by (simp add: mult_right_mono)
    then have "(of_int (int i * s) :: rat) \<le> of_int ((L - 1) * s)" by (simp only: of_int_le_iff)
    then have "(of_int (int i * s) :: rat) \<le> (of_int L - 1) * of_int s" by simp
    then have "of_int (int i * s) < (of_int P :: rat)" using L(4) by (rule le_less_trans)
    then have lt: "int i * s < P" by (simp only: of_int_less_iff)
    have i0: "0 \<le> int i * s" using order(1) by simp
    have b1: "\<bar>int i * s\<bar> < 2 ^ 53" using lt i0 P(3) by simp
    have b2: "\<bar>a + int i * s\<bar> < 2 ^ 53" using lt i0 bounds by (simp add: P_def)
    have p: "of_nat i * (of_int s * pow2 k) = of_int (int i * s) * pow2 k" by simp
    have d1: "double (of_nat i * (of_int s * pow2 k)) = of_int (int i * s) * pow2 k"
      unfolding p using double_exact [OF refl b1 bounds(4)] .
    have "of_int a * pow2 k + of_int (int i * s) * pow2 k = of_int (a + int i * s) * pow2 k"
      by (simp add: algebra_simps)
    then have d2: "double (of_int a * pow2 k + of_int (int i * s) * pow2 k)
        = of_int (a + int i * s) * pow2 k"
      using double_exact [OF refl b2 bounds(4)] by simp
    show ?thesis unfolding d1 d2 by (simp add: algebra_simps)
  qed
  let ?f = "\<lambda>i. (of_int a + of_nat i * of_int s) * pow2 k"
  let ?g = "\<lambda>i. if i = 0 then of_int a * pow2 k else if i = 1 then of_int (a + s) * pow2 k
               else double (of_int a * pow2 k + double (of_nat i * (of_int s * pow2 k)))"
  let ?h = "\<lambda>i. of_int a * pow2 k + of_nat i * (of_int s * pow2 k)"
  have core: "arange vmin vstop vstep =
      (if is_int vmin \<and> is_int vstop \<and> is_int vstep then Inr (map ?h [0 ..< nat L])
       else Inr (map ?g [0 ..< nat L]))"
    using span(1) ratio q Lmax Lpos sec(1) vmin vstep x0 x1 delta
    by (simp add: arange_def bind_err_def as_double_def)
  have mh: "map ?h [0 ..< nat L] = map ?f [0 ..< nat L]" by (simp add: algebra_simps)
  have mg: "map ?g [0 ..< nat L] = map ?f [0 ..< nat L]"
    by (rule map_cong [OF refl]) (simp only: elem atLeastLessThan_iff set_upt)
  have ar: "arange vmin vstop vstep = Inr (map ?f [0 ..< nat L])"
    unfolding core mh mg by simp
  show ?thesis using stop(1) ar by (simp add: bind_err_def L_def P_def)
qed

lemma exact_mesh_properties:
  fixes tmin tmax tstep :: rat
  assumes "tmin = of_int a * pow2 k" "tmax = of_int b * pow2 k" "tstep = of_int s * pow2 k"
    and "0 < tstep" "tmin \<le> tmax"
  defines "ts \<equiv> map (\<lambda>i. (of_int a + of_nat i * of_int s) * pow2 k)
                  [0 ..< nat \<lceil>(of_int (b + s - a) / of_int s :: rat)\<rceil>]"
  shows "ts = map (\<lambda>i. tmin + of_nat i * tstep) [0 ..< length ts]"
    and "ts \<noteq> []" and "sorted_wrt (<) ts" and "hd ts = tmin"
    and "tmax \<le> last ts" and "last ts < tmax + tstep"
    and "(last ts = tmax) = (\<exists>j::nat. tmax - tmin = of_nat j * tstep)"
proof -
  define u where "u = pow2 k"
  have upos: "0 < u" by (simp add: u_def pow2_pos)
  have spos: "0 < s" using assms(3,4) upos by (simp add: u_def [symmetric] zero_less_mult_iff)
  have ab: "a \<le> b" using assms(1,2,5) upos by (simp add: u_def [symmetric])
  define P where "P = b + s - a"
  define L where "L = \<lceil>(of_int P / of_int s :: rat)\<rceil>"
  define n where "n = nat L"
  have P: "s \<le> P" using ab by (simp add: P_def)
  note L = ceiling_quotient_bounds [OF spos P, folded L_def]
  have n1: "0 < n" and Ln: "(of_int L :: rat) = of_nat n" using L(1) by (simp_all add: n_def)
  define f where "f = (\<lambda>i::nat. tmin + of_nat i * tstep)"
  have ts: "ts = map f [0 ..< n]"
    by (simp add: ts_def f_def n_def L_def P_def assms(1,3) algebra_simps)
  then have len: "length ts = n" by simp
  show "ts = map (\<lambda>i. tmin + of_nat i * tstep) [0 ..< length ts]"
    unfolding len using ts by (simp add: f_def)
  show "ts \<noteq> []" using ts n1 by simp
  have "sorted_wrt (\<lambda>x y. f x < f y) [0 ..< n]"
    by (rule sorted_wrt_mono_rel [of _ "(<)"]) (use assms(4) in \<open>simp_all add: f_def\<close>)
  then show "sorted_wrt (<) ts" by (simp add: ts sorted_wrt_map)
  show "hd ts = tmin" using n1 by (simp add: ts hd_map f_def upt_conv_Cons)
  have "last ts = f (n - 1)" using n1 by (simp add: ts last_map)
  also have "\<dots> = tmin + (of_nat n - 1) * tstep" using n1 by (simp add: f_def of_nat_diff)
  finally have la: "last ts = tmin + (of_nat n - 1) * tstep" .
  have Pu: "of_int P * u = tmax + tstep - tmin"
    by (simp add: P_def assms(1,2,3) u_def algebra_simps)
  have su: "of_int s * u = tstep" by (simp add: assms(3) u_def)
  have "of_int P * u \<le> of_int L * of_int s * u" using L(3) upos by simp
  then have b1: "tmax + tstep - tmin \<le> of_nat n * tstep"
    by (simp add: Pu Ln su mult.assoc)
  have "(of_int L - 1) * of_int s * u < of_int P * u" using L(4) upos by simp
  then have b2: "(of_nat n - 1) * tstep < tmax + tstep - tmin"
    by (simp add: Pu Ln su mult.assoc)
  show "tmax \<le> last ts" using b1 by (simp add: la algebra_simps)
  show "last ts < tmax + tstep" using b2 by (simp add: la algebra_simps)
  show "(last ts = tmax) = (\<exists>j::nat. tmax - tmin = of_nat j * tstep)"
  proof
    assume "last ts = tmax"
    then have "tmax - tmin = of_nat (n - 1) * tstep" using n1 by (simp add: la of_nat_diff)
    then show "\<exists>j::nat. tmax - tmin = of_nat j * tstep" ..
  next
    assume "\<exists>j::nat. tmax - tmin = of_nat j * tstep"
    then obtain j :: nat where j: "tmax - tmin = of_nat j * tstep" ..
    have "of_nat j * tstep + tstep \<le> of_nat n * tstep" using j b1 by (simp add: algebra_simps)
    then have "of_nat j * tstep < of_nat n * tstep" using assms(4) by linarith
    then have jn: "j < n" using assms(4) by simp
    have "(of_nat n - 1) * tstep < (of_nat j + 1) * tstep" using j b2 by (simp add: algebra_simps)
    then have "(of_nat n :: rat) - 1 < of_nat j + 1" using assms(4) by simp
    then have "(of_nat n :: rat) < of_nat (j + 2)" by simp
    then have "n < j + 2" by (simp only: of_nat_less_iff)
    with jn have "n = j + 1" by simp
    then show "last ts = tmax" using j by (simp add: la algebra_simps)
  qed
qed

lemma step_mesh_exact:
  assumes "bind_err (getattr args ''tmin'') number = Inr (of_int a * pow2 k)"
    and "bind_err (getattr args ''tmax'') number = Inr (of_int b * pow2 k)"
    and "bind_err (getattr args ''tstep'') number = Inr (of_int s * pow2 k)"
    and "\<bar>a\<bar> \<le> 2 ^ 50" "\<bar>b\<bar> \<le> 2 ^ 50" "s \<le> 2 ^ 50" "- 1074 \<le> k"
    and "0 < s" "a \<le> b"
  shows "step_mesh args
       = Inr (map (\<lambda>i. (of_int a + of_nat i * of_int s) * pow2 k)
                [0 ..< nat \<lceil>(of_int (b + s - a) / of_int s :: rat)\<rceil>])"
proof -
  from assms(1) obtain vmin where 1: "getattr args ''tmin'' = Inr vmin"
    "number vmin = Inr (of_int a * pow2 k)"
    by (cases "getattr args ''tmin''") (simp_all add: bind_err_def)
  from assms(2) obtain vmax where 2: "getattr args ''tmax'' = Inr vmax"
    "number vmax = Inr (of_int b * pow2 k)"
    by (cases "getattr args ''tmax''") (simp_all add: bind_err_def)
  from assms(3) obtain vstep where 3: "getattr args ''tstep'' = Inr vstep"
    "number vstep = Inr (of_int s * pow2 k)"
    by (cases "getattr args ''tstep''") (simp_all add: bind_err_def)
  have "step_mesh args = bind_err (py_add vmax vstep) (\<lambda>stop. arange vmin stop vstep)"
    using 1(1) 2(1) 3(1) by (simp add: step_mesh_def bind_err_def)
  then show ?thesis
    using arange_exact [OF 1(2) 2(2) 3(2) assms(4,5,6,7,8,9)] by simp
qed

section \<open>Lemmas on the file tree\<close>

lemma rts_Cons:
  "replace_temperature_strings ((name, x) # es) t =
     (name, replace_node t name x) # replace_temperature_strings es t"
  by (cases x) simp_all

lemma rts_map:
  "replace_temperature_strings es t = map (\<lambda>(name, x). (name, replace_node t name x)) es"
  by (induction es) (auto simp add: rts_Cons)

lemma map_of_rts:
  "map_of (replace_temperature_strings es t) k = map_option (replace_node t k) (map_of es k)"
  by (induction es) (auto simp add: rts_Cons)

lemma keys_rts: "map fst (replace_temperature_strings es t) = map fst es"
  by (induction es) (auto simp add: rts_Cons)

lemma rts_update:
  "replace_temperature_strings (AList.update k v es) t =
     AList.update k (replace_node t k v) (replace_temperature_strings es t)"
  by (induction es) (auto simp add: rts_Cons)

lemma rts_append:
  "replace_temperature_strings (es @ fs) t =
     replace_temperature_strings es t @ replace_temperature_strings fs t"
  by (simp add: rts_map)

lemma rewrite_file_idem:
  "rewrite_file t name (case rewrite_file t name c of None \<Rightarrow> c | Some c' \<Rightarrow> c') = None"
  by (auto simp add: rewrite_file_def Let_def replace_TEMP_idem split: content.splits)

lemma rts_idem:
  "replace_temperature_strings (replace_temperature_strings es t) t =
     replace_temperature_strings es t"
proof (induction es t rule: replace_temperature_strings.induct)
  case (2 name m0 c es temperature)
  then show ?case by (simp add: rewrite_file_idem)
qed simp_all

lemma replace_node_idem: "replace_node t k (replace_node t k x) = replace_node t k x"
  by (cases x) (simp_all add: rts_idem rewrite_file_idem)

lemma lookup_rts_file:
  "lookup es p = Some (File m c) \<Longrightarrow>
   lookup (replace_temperature_strings es t) p = Some (replace_node t (last p) (File m c))"
proof (induction es p rule: lookup.induct)
  case (1 es)
  then show ?case by simp
next
  case (2 es name rest)
  then show ?case
    by (auto simp add: map_of_rts split: option.splits node.splits if_splits)
qed

lemma lookup_rts_dir:
  "lookup es p = Some (Dir ds) \<Longrightarrow>
   lookup (replace_temperature_strings es t) p = Some (Dir (replace_temperature_strings ds t))"
proof (induction es p rule: lookup.induct)
  case (1 es)
  then show ?case by simp
next
  case (2 es name rest)
  then show ?case
    by (auto simp add: map_of_rts split: option.splits node.splits if_splits)
qed

lemma lookup_rts_none:
  "lookup es p = None \<Longrightarrow> lookup (replace_temperature_strings es t) p = None"
proof (induction es p rule: lookup.induct)
  case (1 es)
  then show ?case by simp
next
  case (2 es name rest)
  then show ?case
    by (auto simp add: map_of_rts split: option.splits node.splits if_splits)
qed

lemma written_files_head:
  "p \<in> set (written_files es t) \<Longrightarrow> p \<noteq> [] \<and> hd p \<in> fst ` set es"
proof (induction es t arbitrary: p rule: written_files.induct)
  case (1 temperature)
  then show ?case by simp
next
  case (2 name m0 c es temperature)
  then show ?case by (auto split: option.splits)
next
  case (3 name ds es temperature)
  then show ?case by auto
qed

lemma written_files_iff:
  "distinct_names es \<Longrightarrow> lookup es p = Some (File m c) \<Longrightarrow>
   (p \<in> set (written_files es t)) = (rewrite_file t (last p) c \<noteq> None)"
proof (induction es t arbitrary: p rule: written_files.induct)
  case (1 temperature)
  then show ?case by (cases p) simp_all
next
  case (2 name m0 c0 es temperature)
  from 2(3) obtain n rest where p: "p = n # rest" by (cases p) auto
  show ?case
  proof (cases "n = name")
    case True
    with 2(3) p have r: "rest = []" "c = c0" "m = m0" by (auto split: if_splits)
    have "[name] \<notin> set (written_files es temperature)"
      using written_files_head [of "[name]" es temperature] 2(2) by auto
    with True p r show ?thesis by (cases "rewrite_file temperature name c0") auto
  next
    case False
    with 2(3) p have "lookup es p = Some (File m c)" by simp
    moreover from 2(2) have "distinct_names es" by simp
    ultimately have "(p \<in> set (written_files es temperature))
        = (rewrite_file temperature (last p) c \<noteq> None)"
      by (rule 2(1) [rotated])
    with False p show ?thesis by (cases "rewrite_file temperature name c0") auto
  qed
next
  case (3 name ds es temperature)
  from 3(4) obtain n rest where p: "p = n # rest" by (cases p) auto
  show ?case
  proof (cases "n = name")
    case True
    with 3(4) p have l: "lookup ds rest = Some (File m c)" by simp
    then have ne: "rest \<noteq> []" by (cases rest) auto
    from 3(3) have "distinct_names ds" by simp
    then have "(rest \<in> set (written_files ds temperature))
        = (rewrite_file temperature (last rest) c \<noteq> None)"
      using l by (rule 3(1))
    moreover have "p \<notin> set (written_files es temperature)"
      using written_files_head [of p es temperature] 3(3) True p by auto
    ultimately show ?thesis using True p ne by auto
  next
    case False
    with 3(4) p have "lookup es p = Some (File m c)" by simp
    moreover from 3(3) have "distinct_names es" by simp
    ultimately have "(p \<in> set (written_files es temperature))
        = (rewrite_file temperature (last p) c \<noteq> None)"
      by (rule 3(2) [rotated])
    with False p show ?thesis by auto
  qed
qed

section \<open>Lemmas on the walk with permission checks\<close>

lemma walk_parts:
  "(fst (walk_files su t es) = None \<and> fst (walk_dirs su t es) = None) = (\<not> tree_refused su t es)"
proof (induction su t es rule: tree_refused.induct)
  case (1 su t)
  then show ?case by simp
next
  case (2 su t name m c es)
  then show ?case by (auto split: prod.splits)
next
  case (3 su t name ds es)
  then show ?case by (auto split: prod.splits option.splits)
qed

lemma walk_files_result:
  "fst (walk_files su t es) = None \<Longrightarrow> snd (walk_files su t es) = rewrite_files t es"
  by (induction su t es rule: walk_files.induct) (auto split: prod.splits if_splits)

lemma walk_dirs_result:
  "fst (walk_dirs su t es) = None \<Longrightarrow>
   snd (walk_dirs su t es) = replace_temperature_strings es t"
proof (induction su t es rule: walk_dirs.induct)
  case (1 su t)
  then show ?case by simp
next
  case (2 su t name m c es)
  then show ?case by (auto split: prod.splits)
next
  case (3 su t name ds es)
  then show ?case by (auto split: prod.splits option.splits)
qed

lemma walk_None_iff: "(fst (walk su t es) = None) = (\<not> tree_refused su t es)"
  unfolding walk_parts [symmetric] walk_def by (auto split: prod.splits option.splits)

lemma walk_result:
  assumes "walk su t es = (None, ws)"
  shows "ws = replace_temperature_strings es t"
proof -
  from assms have "fst (walk_dirs su t es) = None" "ws = snd (walk_dirs su t es)"
    by (auto simp add: walk_def split: prod.splits option.splits)
  then show ?thesis by (simp add: walk_dirs_result)
qed

lemma walk_permitted:
  assumes "\<not> tree_refused su t es"
  shows "walk su t es = (None, replace_temperature_strings es t)"
proof -
  from assms have "fst (walk su t es) = None" by (simp add: walk_None_iff)
  then obtain ws where w: "walk su t es = (None, ws)" by (cases "walk su t es") auto
  with walk_result [OF w] show ?thesis by simp
qed

lemma walk_files_error: "walk_files su t es = (Some e, ws) \<Longrightarrow> e = PermissionError"
  by (induction su t es arbitrary: ws rule: walk_files.induct)
     (auto split: prod.splits if_splits)

lemma walk_dirs_error: "walk_dirs su t es = (Some e, ws) \<Longrightarrow> e = PermissionError"
proof (induction su t es arbitrary: ws rule: walk_dirs.induct)
  case (1 su t)
  then show ?case by simp
next
  case (2 su t name m c es)
  then show ?case by (auto split: prod.splits)
next
  case (3 su t name ds es)
  then show ?case by (auto dest: walk_files_error split: prod.splits option.splits)
qed

lemma walk_error: "walk su t es = (Some e, ws) \<Longrightarrow> e = PermissionError"
  by (auto simp add: walk_def dest: walk_files_error walk_dirs_error
      split: prod.splits option.splits)





lemma refused_superuser: "\<not> refused True t name m c"
  by (simp add: refused_def may_read_def may_write_def)

lemma tree_refused_superuser: "\<not> tree_refused True t es"
  by (induction "True" t es rule: tree_refused.induct) (simp_all add: refused_superuser)

lemma refused_rewritten:
  "refused su t name m (case rewrite_file t name c of None \<Rightarrow> c | Some c' \<Rightarrow> c')
     \<Longrightarrow> refused su t name m c"
  by (simp add: refused_def rewrite_file_idem)

lemma tree_refused_rts:
  "\<not> tree_refused su t es \<Longrightarrow> \<not> tree_refused su t (replace_temperature_strings es t)"
  by (induction su t es rule: tree_refused.induct) (auto dest: refused_rewritten)

lemma tree_refused_append:
  "tree_refused su t (es @ fs) = (tree_refused su t es \<or> tree_refused su t fs)"
  by (induction su t es rule: tree_refused.induct) auto

lemma tree_refused_Cons:
  "tree_refused su t ((k, v) # es) = (tree_refused su t [(k, v)] \<or> tree_refused su t es)"
  by (cases v) simp_all

lemma tree_refused_update:
  "tree_refused su t (AList.update k v es) \<Longrightarrow>
   tree_refused su t es \<or> tree_refused su t [(k, v)]"
proof (induction es)
  case Nil
  then show ?case by simp
next
  case (Cons e es)
  obtain k' v' where e: "e = (k', v')" by (cases e)
  show ?case
  proof (cases "k' = k")
    case True
    with Cons(2) e show ?thesis
      using tree_refused_Cons [of su t k v es] tree_refused_Cons [of su t k' v' es] by auto
  next
    case False
    with Cons e show ?thesis
      using tree_refused_Cons [of su t k' v' "AList.update k v es"]
        tree_refused_Cons [of su t k' v' es] by auto
  qed
qed

lemma tree_refused_map_of:
  "map_of es k = Some (Dir ds) \<Longrightarrow> tree_refused su t ds \<Longrightarrow> tree_refused su t es"
  by (induction su t es rule: tree_refused.induct) (auto split: if_splits)

lemma not_refused_rw:
  "may_read su m \<Longrightarrow> may_write su m \<Longrightarrow> \<not> refused su t name m c"
  by (simp add: refused_def)

section \<open>Lemmas on \<^verbatim>\<open>run_simulation\<close> and the sweep\<close>

lemma lookup_single: "lookup ds [k] = map_of ds k"
  by (auto split: option.splits node.splits)

lemma lookup_two: "lookup fs [f, k] = map_of (entries_of fs f) k"
  by (auto simp add: entries_of_def split: option.splits node.splits)


lemma entries_of_with_entries:
  "entries_of (with_entries fs f ws) f' = (if f' = f then ws else entries_of fs f')"
  by (simp add: entries_of_def with_entries_def update_conv')

lemma entries_of_mkdir:
  "mkdir_exist_ok f fs = Inr fs1 \<Longrightarrow> entries_of fs1 f' = entries_of fs f'"
  by (auto simp add: mkdir_exist_ok_def entries_of_def map_add_def
      split: option.splits node.splits if_splits)

lemma mkdir_cases:
  "mkdir_exist_ok f fs = Inr fs1 \<Longrightarrow> fs1 = fs \<or> (map_of fs f = None \<and> fs1 = fs @ [(f, Dir [])])"
  by (auto simp add: mkdir_exist_ok_def split: option.splits node.splits)

lemma mkdir_error: "mkdir_exist_ok f fs = Inl e \<Longrightarrow> e = FileExistsError"
  by (auto simp add: mkdir_exist_ok_def split: option.splits node.splits)

lemma mkdir_is_dir: "mkdir_exist_ok f fs = Inr fs1 \<Longrightarrow> \<exists>ds. map_of fs1 f = Some (Dir ds)"
  by (auto simp add: mkdir_exist_ok_def map_add_def split: option.splits node.splits)

lemma iterdir_lookup: "(iterdir es p = Inr ds) = (lookup es p = Some (Dir ds))"
  by (induction es p rule: lookup.induct) (auto split: option.splits node.splits)

lemma iterdir_error:
  "iterdir es p = Inl e \<Longrightarrow> e = FileNotFoundError \<or> e = NotADirectoryError"
  by (induction es p rule: lookup.induct) (auto split: option.splits node.splits)

lemma iterdir_not_dir: "\<not> is_dir es p \<Longrightarrow> \<exists>e. iterdir es p = Inl e"
  by (cases "iterdir es p") (auto simp add: iterdir_lookup is_dir_def)

lemma is_dir_append_absent:
  assumes "map_of fs f = None" "p \<noteq> [f]" "\<not> is_dir fs p"
  shows "\<not> is_dir (fs @ [(f, Dir [])]) p"
proof (cases p)
  case Nil
  with assms(3) show ?thesis by (simp add: is_dir_def)
next
  case (Cons n rest)
  show ?thesis
  proof (cases "n = f")
    case True
    with assms(2) Cons have "rest \<noteq> []" by simp
    then obtain r rest' where "rest = r # rest'" by (cases rest) auto
    with True assms(1) Cons show ?thesis by (simp add: is_dir_def map_add_def)
  next
    case False
    with assms(3) Cons show ?thesis
      by (auto simp add: is_dir_def map_add_def split: option.splits node.splits)
  qed
qed

lemma is_dir_mkdir:
  "\<not> is_dir fs base \<Longrightarrow> base \<noteq> [f] \<Longrightarrow> mkdir_exist_ok f fs = Inr fs1 \<Longrightarrow>
   \<not> is_dir fs1 base"
  using mkdir_cases [of f fs fs1] is_dir_append_absent [of fs f base] by auto

lemma copy2_error:
  "copy2 su src dst name m c ds = Inl e \<Longrightarrow>
   e = IsADirectoryError \<or> e = PermissionError \<or> e = SameFileError"
  by (auto simp add: copy2_def split: option.splits node.splits if_splits)

lemma copy2_frame:
  "copy2 su src dst name m c ds = Inr ds' \<Longrightarrow> k \<noteq> name \<Longrightarrow> map_of ds' k = map_of ds k"
  by (auto simp add: copy2_def update_conv' split: option.splits node.splits if_splits)


lemma copy_item_error:
  "copy_item su src dst item ws = (Some e, ws') \<Longrightarrow>
   e = IsADirectoryError \<or> e = PermissionError \<or> e = SameFileError
   \<or> e = FileExistsError \<or> e = ShutilError"
proof (cases item)
  case (Pair name x)
  assume a: "copy_item su src dst item ws = (Some e, ws')"
  show ?thesis
  proof (cases x)
    case (File m c)
    with a Pair show ?thesis by (auto dest: copy2_error split: sum.splits)
  next
    case (Dir ses)
    with a Pair show ?thesis
      by (auto simp add: Let_def split: option.splits node.splits if_splits)
  qed
qed



lemma copy_base_error:
  "copy_base su src dst items ws = (Some e, ws') \<Longrightarrow>
   e = IsADirectoryError \<or> e = PermissionError \<or> e = SameFileError
   \<or> e = FileExistsError \<or> e = ShutilError"
proof (induction items arbitrary: ws)
  case Nil
  then show ?case by simp
next
  case (Cons item items)
  obtain e1 ws1 where ci: "copy_item su src dst item ws = (e1, ws1)"
    by (cases "copy_item su src dst item ws")
  show ?case
  proof (cases e1)
    case None
    with ci Cons show ?thesis by simp
  next
    case (Some err)
    with ci Cons(2) have "e = err" by simp
    with ci Some copy_item_error [of su src dst item ws err ws1] show ?thesis by simp
  qed
qed





lemma materialize_error_kind:
  assumes "materialize su t base fs = Inl (e, fs')"
  shows "is_os_error e"
proof (cases "mkdir_exist_ok (folder_name t) fs")
  case (Inl e0)
  with assms mkdir_error [OF Inl] show ?thesis
    by (auto simp add: materialize_def Let_def is_os_error_def)
next
  case (Inr fs1)
  show ?thesis
  proof (cases "iterdir fs1 base")
    case (Inl e1)
    with Inr assms iterdir_error [OF Inl] show ?thesis
      by (auto simp add: materialize_def Let_def is_os_error_def)
  next
    case items: (Inr items)
    let ?f = "folder_name t"
    obtain eo ws where cb: "copy_base su base [?f] items (entries_of fs1 ?f) = (eo, ws)"
      by (cases "copy_base su base [?f] items (entries_of fs1 ?f)")
    show ?thesis
    proof (cases eo)
      case (Some err)
      with Inr items cb assms have "e = err" by (auto simp add: materialize_def Let_def)
      with Some cb copy_base_error [of su base "[?f]" items _ e ws] show ?thesis
        by (auto simp add: is_os_error_def)
    next
      case None
      obtain r ws' where w: "walk su t ws = (r, ws')" by (cases "walk su t ws")
      with None Inr items cb assms have "r = Some e"
        by (auto simp add: materialize_def Let_def split: option.splits)
      with w walk_error [of su t ws e ws'] show ?thesis by (simp add: is_os_error_def)
    qed
  qed
qed

lemma materialize_folder_is_dir:
  "materialize su t base fs = Inr fs' \<Longrightarrow> \<exists>ds. map_of fs' (folder_name t) = Some (Dir ds)"
  by (auto simp add: materialize_def Let_def with_entries_def update_conv'
      split: sum.splits option.splits node.splits prod.splits)


lemma open_w_error:
  "open_w su k ds = Inl e \<Longrightarrow> e = IsADirectoryError \<or> e = PermissionError"
  by (auto simp add: open_w_def split: option.splits node.splits if_splits)

text \<open>The world in which the binary is started, and the world it leaves.\<close>

lemma run_simulation_started:
  assumes "materialize (superuser w) t base (files w) = Inr fs2"
    and "open_w (superuser w) ''out.log'' (entries_of fs2 (folder_name t)) = Inr ws3"
  shows "run_simulation proc t base bin w =
     (case proc bin (folder_name t) (with_entries fs2 (folder_name t) ws3) of
        None \<Rightarrow>
          Inl (OSError, w\<lparr>files := with_entries fs2 (folder_name t) ws3,
                          spawned := spawned w @ [(bin, folder_name t)]\<rparr>)
      | Some (status, out) \<Rightarrow>
          (if status \<noteq> 0
           then Inl (CalledProcessError status,
                  w\<lparr>files := with_entries fs2 (folder_name t)
                       (AList.update ''out.log'' (File (mode_of ws3 ''out.log'') out) ws3),
                    spawned := spawned w @ [(bin, folder_name t)]\<rparr>)
           else Inr (w\<lparr>files := with_entries fs2 (folder_name t)
                       (AList.update ''out.log'' (File (mode_of ws3 ''out.log'') out) ws3),
                    spawned := spawned w @ [(bin, folder_name t)]\<rparr>)))"
  using assms
  by (simp add: run_simulation_def Let_def with_entries_def split: option.splits prod.splits)

lemma run_simulation_cases:
  obtains (materialize) e fs where "materialize (superuser w) t base (files w) = Inl (e, fs)"
      "run_simulation proc t base bin w = Inl (e, w\<lparr>files := fs\<rparr>)"
  | (open_w) fs2 e where "materialize (superuser w) t base (files w) = Inr fs2"
      "open_w (superuser w) ''out.log'' (entries_of fs2 (folder_name t)) = Inl e"
      "run_simulation proc t base bin w = Inl (e, w\<lparr>files := fs2\<rparr>)"
  | (started) fs2 ws3 where "materialize (superuser w) t base (files w) = Inr fs2"
      "open_w (superuser w) ''out.log'' (entries_of fs2 (folder_name t)) = Inr ws3"
proof (cases "materialize (superuser w) t base (files w)")
  case (Inl a)
  obtain e fs where "a = (e, fs)" by (cases a)
  with Inl show ?thesis by (intro materialize [of e fs]) (simp_all add: run_simulation_def)
next
  case (Inr fs2)
  show ?thesis
  proof (cases "open_w (superuser w) ''out.log'' (entries_of fs2 (folder_name t))")
    case (Inl e)
    with Inr show ?thesis
      by (intro open_w [of fs2 e]) (simp_all add: run_simulation_def Let_def)
  next
    case ws3: (Inr ws3)
    with Inr show ?thesis by (intro started [of fs2 ws3])
  qed
qed



lemma run_simulation_exit:
  assumes "run_simulation proc t base bin w = Inl (e, w')"
  shows "exit_status e = 1"
proof (cases rule: run_simulation_cases [of w t base proc bin])
  case (materialize e0 fs)
  with assms materialize_error_kind [OF materialize(1)] show ?thesis
    by (auto simp add: exit_status_def is_os_error_def)
next
  case (open_w fs2 e0)
  with assms open_w_error [OF open_w(2)] show ?thesis by (auto simp add: exit_status_def)
next
  case (started fs2 ws3)
  from assms show ?thesis
    unfolding run_simulation_started [OF started]
    by (auto simp add: exit_status_def split: option.splits prod.splits if_splits)
qed



section \<open>Lemmas on copying into a workspace\<close>

lemma apart_child: "apart src dst \<Longrightarrow> apart (src @ [n]) (dst @ [n])"
  by (cases src; cases dst) (simp_all add: apart_def)

lemma apart_not_same: "apart src dst \<Longrightarrow> src @ xs \<noteq> dst @ ys"
  by (cases src; cases dst) (auto simp add: apart_def)

lemma copy_entries_Dir:
  "copy_entries su src dst ((name, Dir ses) # es) ds =
     (if (\<exists>m c. map_of ds name = Some (File m c))
      then (True, snd (copy_entries su src dst es ds))
      else (fst (copy_entries su (src @ [name]) (dst @ [name]) ses (entries_of ds name))
              \<or> fst (copy_entries su src dst es
                     (AList.update name
                        (Dir (snd (copy_entries su (src @ [name]) (dst @ [name]) ses
                                     (entries_of ds name)))) ds)),
            snd (copy_entries su src dst es
                     (AList.update name
                        (Dir (snd (copy_entries su (src @ [name]) (dst @ [name]) ses
                                     (entries_of ds name)))) ds))))"
  by (auto simp add: entries_of_def Let_def split: option.splits node.splits)

lemma copy_entries_frame:
  "k \<notin> fst ` set es \<Longrightarrow> map_of (snd (copy_entries su src dst es ds)) k = map_of ds k"
proof (induction es arbitrary: ds src dst rule: distinct_names.induct)
  case 1
  then show ?case by simp
next
  case (2 name m c es)
  then have k: "k \<noteq> name" "k \<notin> fst ` set es" by auto
  show ?case
  proof (cases "copy2 su src dst name m c ds")
    case (Inl e)
    with 2(1) [OF k(2)] show ?thesis by simp
  next
    case (Inr ds')
    with 2(1) [OF k(2), of src dst ds'] copy2_frame [OF Inr k(1)] show ?thesis by simp
  qed
next
  case (3 name ses es)
  then have k: "k \<noteq> name" "k \<notin> fst ` set es" by auto
  show ?case
    using 3(2) [OF k(2)] k(1) by (simp add: copy_entries_Dir update_conv' del: copy_entries.simps)
qed

lemma copy2_readable: "copy2 su src dst name m c X = Inr X1 \<Longrightarrow> may_read su m"
  by (auto simp add: copy2_def split: option.splits node.splits if_splits)

lemma copy2_again:
  assumes "copy2 su src dst name m c X = Inr X1" "map_of Y name = map_of X1 name"
    and "apart src dst" "may_write su m"
  shows "copy2 su src dst name m c Y = Inr Y"
proof (cases "\<exists>inner. map_of X name = Some (Dir inner)")
  case True
  then obtain inner where i: "map_of X name = Some (Dir inner)" by blast
  with assms(1) have x1: "X1 = AList.update name (Dir (AList.update name (File m c) inner)) X"
    by (auto simp add: copy2_def split: option.splits node.splits if_splits)
  let ?inner2 = "AList.update name (File m c) inner"
  from x1 assms(2) have y: "map_of Y name = Some (Dir ?inner2)" by (simp add: update_conv')
  have "map_of ?inner2 name = Some (File m c)" by (simp add: update_conv')
  with y have "copy2 su src dst name m c Y
      = Inr (AList.update name (Dir (AList.update name (File m c) ?inner2)) Y)"
    using apart_not_same [OF assms(3), of "[name]" "[name]"]
      apart_not_same [OF assms(3), of "[name]" "[name, name]"]
      copy2_readable [OF assms(1)] assms(4)
    by (simp add: copy2_def)
  also have "\<dots> = Inr (AList.update name (Dir ?inner2) Y)" by simp
  also have "\<dots> = Inr Y" using y by (simp add: update_triv)
  finally show ?thesis .
next
  case False
  with assms(1) have "X1 = AList.update name (File m c) X"
    by (auto simp add: copy2_def split: option.splits node.splits if_splits)
  with assms(2) have y: "map_of Y name = Some (File m c)" by (simp add: update_conv')
  then have "copy2 su src dst name m c Y = Inr (AList.update name (File m c) Y)"
    using apart_not_same [OF assms(3), of "[name]" "[name]"]
      apart_not_same [OF assms(3), of "[name]" "[name, name]"]
      copy2_readable [OF assms(1)] assms(4)
    by (simp add: copy2_def)
  with y show ?thesis by (simp add: update_triv)
qed

lemma copy_entries_idem:
  "distinct_names es \<Longrightarrow> apart src dst \<Longrightarrow> su \<or> files_writable es \<Longrightarrow>
   \<not> fst (copy_entries su src dst es X) \<Longrightarrow>
   copy_entries su src dst es (snd (copy_entries su src dst es X))
     = (False, snd (copy_entries su src dst es X))"
proof (induction es arbitrary: X src dst rule: distinct_names.induct)
  case 1
  then show ?case by simp
next
  case (2 name m c es)
  from 2(2) have d: "name \<notin> fst ` set es" "distinct_names es" by simp_all
  from 2(4) have w: "may_write su m" "su \<or> files_writable es" by (auto simp add: may_write_def)
  from 2(5) obtain X1 where c2: "copy2 su src dst name m c X = Inr X1"
    by (cases "copy2 su src dst name m c X") auto
  let ?Y = "snd (copy_entries su src dst es X1)"
  from 2(5) c2 have nf: "\<not> fst (copy_entries su src dst es X1)" by simp
  have ih: "copy_entries su src dst es ?Y = (False, ?Y)" using 2(1) [OF d(2) 2(3) w(2) nf] .
  have "map_of ?Y name = map_of X1 name" using copy_entries_frame [OF d(1)] .
  then have "copy2 su src dst name m c ?Y = Inr ?Y" using copy2_again [OF c2 _ 2(3) w(1)] by blast
  with ih c2 show ?case by simp
next
  case (3 name ses es)
  from 3(3) have d: "name \<notin> fst ` set es" "distinct_names ses" "distinct_names es" by simp_all
  from 3(5) have w: "su \<or> files_writable ses" "su \<or> files_writable es" by auto
  let ?src = "src @ [name]" and ?dst = "dst @ [name]"
  have ap: "apart ?src ?dst" using 3(4) by (rule apart_child)
  let ?sub = "copy_entries su ?src ?dst ses (entries_of X name)"
  let ?X1 = "AList.update name (Dir (snd ?sub)) X"
  let ?Y = "snd (copy_entries su src dst es ?X1)"
  from 3(6) have nfile: "\<not> (\<exists>m c. map_of X name = Some (File m c))"
    and nsub: "\<not> fst ?sub" and nrest: "\<not> fst (copy_entries su src dst es ?X1)"
    by (auto simp add: copy_entries_Dir simp del: copy_entries.simps split: if_splits)
  have y: "map_of ?Y name = Some (Dir (snd ?sub))"
    using copy_entries_frame [OF d(1), of su src dst ?X1] by (simp add: update_conv')
  then have e: "entries_of ?Y name = snd ?sub" by (simp add: entries_of_def)
  have s2: "copy_entries su ?src ?dst ses (snd ?sub) = (False, snd ?sub)"
    using 3(1) [OF d(2) ap w(1) nsub] .
  have u: "AList.update name (Dir (snd ?sub)) ?Y = ?Y" using y by (simp add: update_triv)
  have r2: "copy_entries su src dst es ?Y = (False, ?Y)" using 3(2) [OF d(3) 3(4) w(2) nrest] .
  have "copy_entries su src dst ((name, Dir ses) # es) ?Y = (False, ?Y)"
    using y e s2 u r2 by (simp add: copy_entries_Dir del: copy_entries.simps)
  moreover have "snd (copy_entries su src dst ((name, Dir ses) # es) X) = ?Y"
    using nfile by (simp add: copy_entries_Dir del: copy_entries.simps)
  ultimately show ?case by simp
qed

lemma copy_base_success:
  "(fst (copy_base su src dst items ws) = None) = (\<not> fst (copy_entries su src dst items ws))
   \<and> (fst (copy_base su src dst items ws) = None \<longrightarrow>
        snd (copy_base su src dst items ws) = snd (copy_entries su src dst items ws))"
proof (induction items arbitrary: ws rule: distinct_names.induct)
  case 1
  then show ?case by simp
next
  case (2 name m c es)
  show ?case
  proof (cases "copy2 su src dst name m c ws")
    case (Inl e)
    then show ?thesis by simp
  next
    case (Inr ws')
    with 2 [of ws'] show ?thesis by simp
  qed
next
  case (3 name ses es)
  let ?sub = "copy_entries su (src @ [name]) (dst @ [name]) ses (entries_of ws name)"
  let ?X1 = "AList.update name (Dir (snd ?sub)) ws"
  show ?case
  proof (cases "\<exists>m c. map_of ws name = Some (File m c)")
    case True
    then show ?thesis by (auto simp add: copy_entries_Dir simp del: copy_entries.simps)
  next
    case False
    then have ci: "copy_item su src dst (name, Dir ses) ws
        = (if fst ?sub then Some ShutilError else None, ?X1)"
      by (auto simp add: entries_of_def Let_def split: option.splits node.splits)
    show ?thesis
    proof (cases "fst ?sub")
      case True
      with ci False show ?thesis by (simp add: copy_entries_Dir del: copy_entries.simps)
    next
      case nf: False
      with ci False 3(2) [of ?X1] show ?thesis
        by (simp add: copy_entries_Dir del: copy_entries.simps)
    qed
  qed
qed

lemma copy_entries_readable:
  "\<not> fst (copy_entries su src dst es X) \<Longrightarrow> su \<or> files_readable es"
proof (induction es arbitrary: X src dst rule: distinct_names.induct)
  case 1
  then show ?case by simp
next
  case (2 name m c es)
  from 2(2) obtain X1 where c2: "copy2 su src dst name m c X = Inr X1"
    by (cases "copy2 su src dst name m c X") auto
  with 2(2) have "\<not> fst (copy_entries su src dst es X1)" by simp
  from 2(1) [OF this] copy2_readable [OF c2] show ?case by (auto simp add: may_read_def)
next
  case (3 name ses es)
  from 3(3) have "\<not> fst (copy_entries su (src @ [name]) (dst @ [name]) ses (entries_of X name))"
    and "\<not> fst (copy_entries su src dst es
           (AList.update name
              (Dir (snd (copy_entries su (src @ [name]) (dst @ [name]) ses (entries_of X name))))
              X))"
    by (auto simp add: copy_entries_Dir simp del: copy_entries.simps split: if_splits)
  from 3(1) [OF this(1)] 3(2) [OF this(2)] show ?case by auto
qed

lemma tree_refused_entries_of:
  "\<not> tree_refused su t D \<Longrightarrow> \<not> tree_refused su t (entries_of D k)"
  by (auto simp add: entries_of_def dest: tree_refused_map_of split: option.splits node.splits)

lemma copy2_not_refused:
  assumes "copy2 su src dst name m c D = Inr D'" "\<not> tree_refused su t D" "may_write su m"
  shows "\<not> tree_refused su t D'"
proof -
  have f: "\<not> tree_refused su t [(name, File m c)]"
    using not_refused_rw [OF copy2_readable [OF assms(1)] assms(3)] by simp
  show ?thesis
  proof (cases "\<exists>inner. map_of D name = Some (Dir inner)")
    case True
    then obtain inner where i: "map_of D name = Some (Dir inner)" by blast
    with assms(1) have d: "D' = AList.update name (Dir (AList.update name (File m c) inner)) D"
      by (auto simp add: copy2_def split: option.splits node.splits if_splits)
    have "\<not> tree_refused su t inner" using i assms(2) tree_refused_map_of by blast
    with f have "\<not> tree_refused su t (AList.update name (File m c) inner)"
      using tree_refused_update by blast
    then have "\<not> tree_refused su t [(name, Dir (AList.update name (File m c) inner))]" by simp
    with assms(2) show ?thesis unfolding d using tree_refused_update by blast
  next
    case False
    with assms(1) have "D' = AList.update name (File m c) D"
      by (auto simp add: copy2_def split: option.splits node.splits if_splits)
    with f assms(2) show ?thesis using tree_refused_update by blast
  qed
qed

lemma copy_entries_not_refused:
  "\<not> tree_refused su t D \<Longrightarrow> su \<or> files_writable es \<Longrightarrow>
   \<not> tree_refused su t (snd (copy_entries su src dst es D))"
proof (induction es arbitrary: D src dst rule: distinct_names.induct)
  case 1
  then show ?case by simp
next
  case (2 name m c es)
  from 2(3) have w: "may_write su m" "su \<or> files_writable es" by (auto simp add: may_write_def)
  show ?case
  proof (cases "copy2 su src dst name m c D")
    case (Inl e)
    with 2(1) [OF 2(2) w(2)] show ?thesis by simp
  next
    case (Inr D')
    from copy2_not_refused [OF Inr 2(2) w(1)] have "\<not> tree_refused su t D'" .
    from 2(1) [OF this w(2)] Inr show ?thesis by simp
  qed
next
  case (3 name ses es)
  from 3(4) have w: "su \<or> files_writable ses" "su \<or> files_writable es" by auto
  let ?sub = "copy_entries su (src @ [name]) (dst @ [name]) ses (entries_of D name)"
  have "\<not> tree_refused su t (snd ?sub)"
    using 3(1) [OF tree_refused_entries_of [OF 3(3)] w(1)] .
  then have "\<not> tree_refused su t [(name, Dir (snd ?sub))]" by simp
  with 3(3) have "\<not> tree_refused su t (AList.update name (Dir (snd ?sub)) D)"
    using tree_refused_update by blast
  from 3(2) [OF this w(2)] 3(2) [OF 3(3) w(2)] show ?case
    by (simp add: copy_entries_Dir del: copy_entries.simps)
qed

lemma rts_eq_map_of:
  assumes "replace_temperature_strings X' t = replace_temperature_strings X t"
  shows "map_option (replace_node t k) (map_of X' k) = map_option (replace_node t k) (map_of X k)"
  using assms map_of_rts [of X' t k] map_of_rts [of X t k] by simp

lemma same_kind:
  assumes "map_option (replace_node t k) a = map_option (replace_node t k) b"
  shows "(\<exists>c. a = Some (File m c)) = (\<exists>c. b = Some (File m c))"
    and "(\<exists>d. a = Some (Dir d)) = (\<exists>d. b = Some (Dir d))"
proof -
  show "(\<exists>c. a = Some (File m c)) = (\<exists>c. b = Some (File m c))"
  proof (cases a)
    case None
    with assms show ?thesis by simp
  next
    case (Some x)
    with assms obtain y where y: "b = Some y" "replace_node t k x = replace_node t k y"
      by (cases b) auto
    with Some show ?thesis by (cases x; cases y) auto
  qed
  show "(\<exists>d. a = Some (Dir d)) = (\<exists>d. b = Some (Dir d))"
  proof (cases a)
    case None
    with assms show ?thesis by simp
  next
    case (Some x)
    with assms obtain y where y: "b = Some y" "replace_node t k x = replace_node t k y"
      by (cases b) auto
    with Some show ?thesis by (cases x; cases y) simp_all
  qed
qed

lemma rts_eq_file:
  assumes "replace_temperature_strings X' t = replace_temperature_strings X t"
  shows "(\<exists>c. map_of X' k = Some (File m c)) = (\<exists>c. map_of X k = Some (File m c))"
  using same_kind(1) [OF rts_eq_map_of [OF assms, of k]] .

lemma rts_eq_dir:
  assumes "replace_temperature_strings X' t = replace_temperature_strings X t"
  shows "(\<exists>d. map_of X' k = Some (Dir d)) = (\<exists>d. map_of X k = Some (Dir d))"
  using same_kind(2) [OF rts_eq_map_of [OF assms, of k]] .

lemma rts_eq_entries:
  assumes "replace_temperature_strings X' t = replace_temperature_strings X t"
  shows "replace_temperature_strings (entries_of X' k) t
       = replace_temperature_strings (entries_of X k) t"
proof (cases "map_of X k")
  case None
  with rts_eq_map_of [OF assms, of k] show ?thesis by (simp add: entries_of_def)
next
  case (Some x)
  with rts_eq_map_of [OF assms, of k] obtain x' where x': "map_of X' k = Some x'"
    "replace_node t k x' = replace_node t k x" by auto
  with Some show ?thesis by (cases x; cases x') (simp_all add: entries_of_def)
qed

text \<open>The tests of \<^const>\<open>copy2\<close> on the destination, as properties of its entries.\<close>

lemma copy2_alt:
  "copy2 su src dst name m c ds =
     (if (\<exists>d. map_of ds name = Some (Dir d))
      then (if src @ [name] = dst @ [name, name] then Inl SameFileError
            else if \<not> may_read su m then Inl PermissionError
            else if (\<exists>d. map_of (entries_of ds name) name = Some (Dir d))
            then Inl IsADirectoryError
            else if (\<exists>m'. \<not> may_write su m'
                       \<and> (\<exists>c'. map_of (entries_of ds name) name = Some (File m' c')))
            then Inl PermissionError
            else Inr (AList.update name
                       (Dir (AList.update name (File m c) (entries_of ds name))) ds))
      else if (\<exists>m'. \<exists>c'. map_of ds name = Some (File m' c'))
      then (if src @ [name] = dst @ [name] then Inl SameFileError
            else if \<not> may_read su m then Inl PermissionError
            else if (\<exists>m'. \<not> may_write su m' \<and> (\<exists>c'. map_of ds name = Some (File m' c')))
            then Inl PermissionError
            else Inr (AList.update name (File m c) ds))
      else if \<not> may_read su m then Inl PermissionError
      else Inr (AList.update name (File m c) ds))"
  by (auto simp add: copy2_def entries_of_def split: option.splits node.splits)

lemma copy2_compat:
  assumes "replace_temperature_strings X' t = replace_temperature_strings X t"
  shows "(copy2 su src dst name m c X = Inl e \<longrightarrow> copy2 su src dst name m c X' = Inl e)
     \<and> (copy2 su src dst name m c X = Inr Y \<longrightarrow>
          (\<exists>Y'. copy2 su src dst name m c X' = Inr Y'
             \<and> replace_temperature_strings Y' t = replace_temperature_strings Y t))"
proof -
  have d: "(\<exists>d. map_of X' name = Some (Dir d)) = (\<exists>d. map_of X name = Some (Dir d))"
    using rts_eq_dir [OF assms] .
  have f: "(\<exists>c'. map_of X' name = Some (File m' c')) = (\<exists>c'. map_of X name = Some (File m' c'))"
    for m' using rts_eq_file [OF assms] .
  have i: "replace_temperature_strings (entries_of X' name) t
         = replace_temperature_strings (entries_of X name) t"
    using rts_eq_entries [OF assms] .
  have di: "(\<exists>d. map_of (entries_of X' name) name = Some (Dir d))
          = (\<exists>d. map_of (entries_of X name) name = Some (Dir d))"
    using rts_eq_dir [OF i] .
  have fi: "(\<exists>c'. map_of (entries_of X' name) name = Some (File m' c'))
          = (\<exists>c'. map_of (entries_of X name) name = Some (File m' c'))"
    for m' using rts_eq_file [OF i] .
  show ?thesis
    unfolding copy2_alt [of su src dst name m c X] copy2_alt [of su src dst name m c X'] d di f fi
    using assms i by (auto simp add: rts_update)
qed

lemma copy_entries_compat:
  "replace_temperature_strings X' t = replace_temperature_strings X t \<Longrightarrow>
   fst (copy_entries su src dst es X') = fst (copy_entries su src dst es X)
   \<and> replace_temperature_strings (snd (copy_entries su src dst es X')) t
       = replace_temperature_strings (snd (copy_entries su src dst es X)) t"
proof (induction es arbitrary: X X' src dst rule: distinct_names.induct)
  case 1
  then show ?case by simp
next
  case (2 name m c es)
  show ?case
  proof (cases "copy2 su src dst name m c X")
    case (Inl e)
    with copy2_compat [OF 2(2), of su src dst name m c e]
    have "copy2 su src dst name m c X' = Inl e" by blast
    with Inl 2(1) [OF 2(2)] show ?thesis by simp
  next
    case (Inr Y)
    with copy2_compat [OF 2(2), of su src dst name m c _ Y] obtain Y' where
      y': "copy2 su src dst name m c X' = Inr Y'"
      "replace_temperature_strings Y' t = replace_temperature_strings Y t" by blast
    with Inr 2(1) [OF y'(2)] show ?thesis by simp
  qed
next
  case (3 name ses es)
  have f: "(\<exists>m c. map_of X' name = Some (File m c)) = (\<exists>m c. map_of X name = Some (File m c))"
    using rts_eq_file [OF 3(3)] by blast
  show ?case
  proof (cases "\<exists>m c. map_of X name = Some (File m c)")
    case True
    with f 3(2) [OF 3(3)] show ?thesis
      by (simp add: copy_entries_Dir del: copy_entries.simps)
  next
    case False
    let ?sub = "copy_entries su (src @ [name]) (dst @ [name]) ses (entries_of X name)"
    let ?sub' = "copy_entries su (src @ [name]) (dst @ [name]) ses (entries_of X' name)"
    have s: "fst ?sub' = fst ?sub"
      "replace_temperature_strings (snd ?sub') t = replace_temperature_strings (snd ?sub) t"
      using 3(1) [OF rts_eq_entries [OF 3(3)]] by blast+
    have "replace_temperature_strings (AList.update name (Dir (snd ?sub')) X') t
        = replace_temperature_strings (AList.update name (Dir (snd ?sub)) X) t"
      using s(2) 3(3) by (simp add: rts_update)
    from 3(2) [OF this] s(1) False f show ?thesis
      by (simp add: copy_entries_Dir del: copy_entries.simps)
  qed
qed

lemma distinct_names_map_of:
  "distinct_names es \<Longrightarrow> map_of es k = Some (Dir ds) \<Longrightarrow> distinct_names ds"
  by (induction es rule: distinct_names.induct) (auto split: if_splits)

lemma distinct_names_lookup:
  "distinct_names es \<Longrightarrow> lookup es p = Some (Dir ds) \<Longrightarrow> distinct_names ds"
proof (induction es p rule: lookup.induct)
  case (1 es)
  then show ?case by simp
next
  case (2 es name rest)
  then show ?case
    by (auto dest: distinct_names_map_of split: option.splits node.splits if_splits)
qed

lemma lookup_with_entries_other:
  "p \<noteq> [] \<Longrightarrow> hd p \<noteq> f \<Longrightarrow> lookup (with_entries fs f ws) p = lookup fs p"
  by (cases p) (simp_all add: with_entries_def update_conv')

lemma lookup_mkdir_other:
  "p \<noteq> [] \<Longrightarrow> hd p \<noteq> f \<Longrightarrow> mkdir_exist_ok f fs = Inr fs1 \<Longrightarrow> lookup fs1 p = lookup fs p"
proof -
  assume a: "p \<noteq> []" "hd p \<noteq> f" "mkdir_exist_ok f fs = Inr fs1"
  then obtain n rest where p: "p = n # rest" "n \<noteq> f" by (cases p) auto
  from mkdir_cases [OF a(3)] have "map_of fs1 n = map_of fs n"
    using p(2) by (auto simp add: map_add_def split: option.splits)
  with p(1) show ?thesis by simp
qed

lemma materialize_success:
  assumes "materialize su t base fs = Inr fs1"
  obtains F1 items Y where "mkdir_exist_ok (folder_name t) fs = Inr F1"
    and "iterdir F1 base = Inr items"
    and "copy_base su base [folder_name t] items (entries_of F1 (folder_name t)) = (None, Y)"
    and "walk su t Y = (None, replace_temperature_strings Y t)"
    and "fs1 = with_entries F1 (folder_name t) (replace_temperature_strings Y t)"
proof -
  let ?f = "folder_name t"
  from assms obtain F1 where m: "mkdir_exist_ok ?f fs = Inr F1"
    by (cases "mkdir_exist_ok ?f fs") (auto simp add: materialize_def Let_def)
  with assms obtain items where i: "iterdir F1 base = Inr items"
    by (cases "iterdir F1 base") (auto simp add: materialize_def Let_def)
  obtain eo Y where cb: "copy_base su base [?f] items (entries_of F1 ?f) = (eo, Y)"
    by (cases "copy_base su base [?f] items (entries_of F1 ?f)")
  with assms m i have eo: "eo = None" by (cases eo) (auto simp add: materialize_def Let_def)
  obtain r Z where w: "walk su t Y = (r, Z)" by (cases "walk su t Y")
  with assms m i cb eo have r: "r = None" and f: "fs1 = with_entries F1 ?f Z"
    by (cases r; auto simp add: materialize_def Let_def)+
  from w r walk_result [of su t Y Z] have "Z = replace_temperature_strings Y t" by simp
  with m i cb eo w r f that show ?thesis by simp
qed

lemma materialize_again:
  assumes "distinct_names fs" "base \<noteq> []" "hd base \<noteq> folder_name t"
    and "lookup fs base = Some (Dir items)" "su \<or> files_writable items"
    and "materialize su t base fs = Inr fs1"
  shows "materialize su t base fs1 = Inr fs1"
proof -
  let ?f = "folder_name t"
  from assms(6) obtain F1 items' Y where
    m: "mkdir_exist_ok ?f fs = Inr F1"
    and it: "iterdir F1 base = Inr items'"
    and cb: "copy_base su base [?f] items' (entries_of F1 ?f) = (None, Y)"
    and wk: "walk su t Y = (None, replace_temperature_strings Y t)"
    and r: "fs1 = with_entries F1 ?f (replace_temperature_strings Y t)"
    by (rule materialize_success)
  have l: "lookup F1 base = Some (Dir items)"
    using lookup_mkdir_other [OF assms(2,3) m] assms(4) by simp
  with it have "items' = items" by (simp add: iterdir_lookup)
  note cb = cb [unfolded this]
  have di: "distinct_names items" using distinct_names_lookup [OF assms(1,4)] .
  have ap: "apart base [?f]" using assms(2,3) by (simp add: apart_def)
  from cb copy_base_success [of su base "[?f]" items "entries_of F1 ?f"]
  have ce: "\<not> fst (copy_entries su base [?f] items (entries_of F1 ?f))"
    "Y = snd (copy_entries su base [?f] items (entries_of F1 ?f))" by simp_all
  have idem: "copy_entries su base [?f] items Y = (False, Y)"
    using copy_entries_idem [OF di ap assms(5) ce(1)] ce(2) by simp
  let ?Z = "replace_temperature_strings Y t"
  have "replace_temperature_strings ?Z t = replace_temperature_strings Y t" by (rule rts_idem)
  from copy_entries_compat [OF this, of su base "[?f]" items] idem
  have c2: "\<not> fst (copy_entries su base [?f] items ?Z)"
    "replace_temperature_strings (snd (copy_entries su base [?f] items ?Z)) t = ?Z" by simp_all
  let ?Y2 = "snd (copy_entries su base [?f] items ?Z)"
  from c2(1) copy_base_success [of su base "[?f]" items ?Z]
  have cb2: "copy_base su base [?f] items ?Z = (None, ?Y2)"
    by (cases "copy_base su base [?f] items ?Z") simp
  have "\<not> tree_refused su t Y" using wk walk_None_iff [of su t Y] by simp
  then have "\<not> tree_refused su t ?Z" by (rule tree_refused_rts)
  then have "\<not> tree_refused su t ?Y2" using assms(5) by (rule copy_entries_not_refused)
  then have w2: "walk su t ?Y2 = (None, ?Z)" using walk_permitted [of su t ?Y2] c2(2) by simp
  have md: "mkdir_exist_ok ?f fs1 = Inr fs1"
    using r by (simp add: mkdir_exist_ok_def with_entries_def update_conv')
  have "lookup fs1 base = Some (Dir items)"
    using r l lookup_with_entries_other [OF assms(2,3)] by simp
  then have i2: "iterdir fs1 base = Inr items" by (simp add: iterdir_lookup)
  have e2: "entries_of fs1 ?f = ?Z" using r by (simp add: entries_of_with_entries)
  have "with_entries fs1 ?f ?Z = fs1" using r by (simp add: with_entries_def)
  then show ?thesis
    using md i2 e2 cb2 w2 by (simp add: materialize_def Let_def)
qed

lemma temperature_text_no_TEMP: "\<not> sublist ''TEMP'' (temperature_text t)"
proof
  assume "sublist ''TEMP'' (temperature_text t)"
  then have "set ''TEMP'' \<subseteq> set (temperature_text t)" by (rule set_mono_sublist)
  with temperature_text_chars [of t] show False by auto
qed

section \<open>Workspace names and rounding\<close>

text \<open>
  Claim C7. The workspace directory name depends on the temperature alone: it is the
  prefix \<open>T_\<close> followed by the integer \<open>round(temperature)\<close> in decimal, padded with
  zeros to four characters at least (reading the padded text back as an integer gives
  that integer). Two temperatures get the same name exactly when they round to the same
  integer; the temperature 310.4 gets \<open>T_0310\<close>.
\<close>

theorem C7_folder_name:
  "folder_name t = ''T_'' @ format_04d (py_round t)
   \<and> 4 \<le> length (format_04d n)
   \<and> py_int_of_str (format_04d n) = Inr n
   \<and> (folder_name t1 = folder_name t2) = (py_round t1 = py_round t2)
   \<and> folder_name (1552 / 5) = ''T_0310''"
proof -
  have "(folder_name t1 = folder_name t2) = (py_round t1 = py_round t2)"
    using format_04d_inj [of "py_round t1" "py_round t2"] by (auto simp add: folder_name_def)
  moreover have "folder_name (1552 / 5) = ''T_0310''" by code_simp
  ultimately show ?thesis
    by (simp add: folder_name_def length_format_04d py_int_of_format_04d)
qed

theorem C7_folder_name_witness:
  "folder_name (1551 / 5) = folder_name (1552 / 5)
   \<and> folder_name (1553 / 5) \<noteq> folder_name (1552 / 5)
   \<and> folder_name (1552 / 5) = ''T_0310''"
proof -
  have a: "py_round (1551 / 5) = 310" and b: "py_round (1552 / 5) = 310"
    and c: "py_round (1553 / 5) = 311" by code_simp+
  have "(folder_name (1551 / 5) = folder_name (1552 / 5))
      = (py_round (1551 / 5) = py_round (1552 / 5))"
    using C7_folder_name [of 0 0 "1551 / 5" "1552 / 5"] by blast
  with a b have "folder_name (1551 / 5) = folder_name (1552 / 5)" by simp
  moreover have "(folder_name (1553 / 5) = folder_name (1552 / 5))
      = (py_round (1553 / 5) = py_round (1552 / 5))"
    using C7_folder_name [of 0 0 "1553 / 5" "1552 / 5"] by blast
  with b c have "folder_name (1553 / 5) \<noteq> folder_name (1552 / 5)" by simp
  moreover have "folder_name (1552 / 5) = ''T_0310''"
    using C7_folder_name [of 0 0 0 0] by blast
  ultimately show ?thesis by blast
qed

text \<open>
  Claim C10. \<open>round\<close> breaks a tie towards the even integer: 310.5 gives 310 and 311.5
  gives 312, and in general \<open>k + 1/2\<close> gives \<open>k\<close> when \<open>k\<close> is even and \<open>k + 1\<close> otherwise;
  away from a tie it gives the nearest integer. The directory name and the text put in
  place of the token are made from the same integer: read back as integers, the digits
  of the directory name and the replacement text both give \<open>round(temperature)\<close>.
\<close>

theorem C10_round_half_even:
  "py_round (621 / 2) = 310 \<and> py_round (623 / 2) = 312
   \<and> py_round (of_int k + 1 / 2) = (if even k then k else k + 1)
   \<and> \<bar>x - of_int (py_round x)\<bar> \<le> 1 / 2
   \<and> py_int_of_str (drop 2 (folder_name t)) = Inr (py_round t)
   \<and> py_int_of_str (temperature_text t) = Inr (py_round t)
   \<and> replace_TEMP t s = py_replace ''TEMP'' (py_str_int (py_round t)) s"
proof -
  have "py_round (621 / 2) = 310" "py_round (623 / 2) = 312" by code_simp+
  moreover have "py_round (of_int k + 1 / 2) = (if even k then k else k + 1)"
    by (rule py_round_tie)
  moreover have "\<bar>x - of_int (py_round x)\<bar> \<le> 1 / 2"
    by (rule py_round_nearest)
  moreover have "py_int_of_str (drop 2 (folder_name t)) = Inr (py_round t)"
    by (simp add: folder_name_def py_int_of_format_04d)
  moreover have "py_int_of_str (temperature_text t) = Inr (py_round t)"
    by (simp add: temperature_text_def py_int_of_py_str_int)
  moreover have "replace_TEMP t s = py_replace ''TEMP'' (py_str_int (py_round t)) s"
    by (simp add: replace_TEMP_def temperature_text_def)
  ultimately show ?thesis by blast
qed

theorem C10_round_half_even_witness:
  "py_round (of_int 311 + 1 / 2) = 312
   \<and> py_int_of_str (drop 2 (folder_name (623 / 2))) = Inr 312
   \<and> py_int_of_str (temperature_text (623 / 2)) = Inr 312"
proof -
  have r: "py_round (623 / 2) = 312" by code_simp
  have "py_round (of_int 311 + 1 / 2) = (if even (311::int) then 311 else 311 + 1)"
    using C10_round_half_even [of 311 0 0 "[]"] by blast
  moreover have "py_int_of_str (drop 2 (folder_name (623 / 2))) = Inr (py_round (623 / 2))"
    "py_int_of_str (temperature_text (623 / 2)) = Inr (py_round (623 / 2))"
    using C10_round_half_even [of 0 0 "623 / 2" "[]"] by blast+
  ultimately show ?thesis by (simp add: r)
qed

section \<open>The configuration file, the namespace and the mesh\<close>

text \<open>
  Claim C6. \<^verbatim>\<open>parse_config_file\<close> on a readable file returns a dictionary, and never
  raises. The value stored under a key is the value of the last line that is an entry
  with that key, where a line is an entry when it contains \<open>=\<close> and its trimmed form
  does not start with \<open>#\<close>, and its key and value are the trimmed sides of the first
  \<open>=\<close> of the trimmed line; a key that no entry has is absent. So lines without \<open>=\<close>,
  blank lines and comment lines contribute nothing (and the function has no output).
  On the five-line example file the result is exactly the four pairs of the
  specification. A file that cannot be opened or decoded gives the exception of
  \<^verbatim>\<open>open\<close>.
\<close>

theorem C6_parse_config_file:
  "(rd p = Inr text \<longrightarrow>
     (\<exists>config. parse_config_file rd p = Inr config
        \<and> distinct (map fst config)
        \<and> (\<forall>key. map_of config key = last_entry (file_lines text) key)))
   \<and> parse_config_file (\<lambda>p. Inr example_text) file_path =
       Inr [(''tmin'', ''100''), (''tmax'', ''300''), (''tstep'', ''100''),
            (''binary'', ''/opt/sim'')]
   \<and> (rd p = Inl err \<longrightarrow> parse_config_file rd p = Inl err)"
proof -
  have "config_lines [] (file_lines example_text) =
       Inr [(''tmin'', ''100''), (''tmax'', ''300''), (''tstep'', ''100''),
            (''binary'', ''/opt/sim'')]"
    by code_simp
  then show ?thesis
    by (simp add: parse_config_file_def config_lines_foldl map_of_foldl_config_step
        distinct_foldl_config_step split: sum.splits option.splits)
qed

theorem C6_parse_config_file_witness:
  "(\<lambda>p. Inr (''a=1'' @ [LF] @ ''# c=3'' @ [LF] @ ''junk'' @ [LF] @ '' a = 2 '' @ [CR, LF] @ [LF]))
      ''sweep.cfg''
     = (Inr (''a=1'' @ [LF] @ ''# c=3'' @ [LF] @ ''junk'' @ [LF] @ '' a = 2 '' @ [CR, LF] @ [LF])
         :: error + string)
   \<and> (\<exists>config.
        parse_config_file
          (\<lambda>p. Inr (''a=1'' @ [LF] @ ''# c=3'' @ [LF] @ ''junk'' @ [LF] @ '' a = 2 '' @ [CR, LF] @ [LF]))
          ''sweep.cfg'' = Inr config
        \<and> map_of config ''a'' = Some ''2'' \<and> map_of config ''c'' = None)"
proof -
  let ?text = "''a=1'' @ [LF] @ ''# c=3'' @ [LF] @ ''junk'' @ [LF] @ '' a = 2 '' @ [CR, LF] @ [LF]"
  let ?rd = "\<lambda>p::string. (Inr ?text :: error + string)"
  have h: "?rd ''sweep.cfg'' = Inr ?text" by simp
  have a: "last_entry (file_lines ?text) ''a'' = Some ''2''" by code_simp
  have c: "last_entry (file_lines ?text) ''c'' = None" by code_simp
  from C6_parse_config_file [of ?rd "''sweep.cfg''" ?text "''sweep.cfg''" ValueError] h
  obtain config where "parse_config_file ?rd ''sweep.cfg'' = Inr config"
    and "\<forall>key. map_of config key = last_entry (file_lines ?text) key"
    by blast
  with a c have "parse_config_file ?rd ''sweep.cfg'' = Inr config
      \<and> map_of config ''a'' = Some ''2'' \<and> map_of config ''c'' = None"
    by simp
  then show ?thesis using h by blast
qed

text \<open>
  Claim C1, as amended. Let the resolved values of \<open>tmin\<close>, \<open>tmax\<close> and \<open>tstep\<close> be
  integer multiples \<open>a * u\<close>, \<open>b * u\<close> and \<open>s * u\<close> of one power of two \<open>u = 2^k\<close> with
  \<open>-1074 \<le> k \<le> 971\<close> (\<open>u = 1\<close> for integer values), with \<open>\<bar>a\<bar>\<close>, \<open>\<bar>b\<bar>\<close> and \<open>s\<close> at most
  \<open>2^50\<close>, and let \<open>tstep > 0\<close> and \<open>tmin \<le> tmax\<close>. Then no operation of the mesh
  computation rounds, and the mesh of the program, from the command line alone or with
  a configuration file, is \<open>tmin\<close>, \<open>tmin + tstep\<close>, \<open>tmin + 2 * tstep\<close>, and so on: it is
  not empty, strictly increasing, starts at \<open>tmin\<close>, and its last element is at least
  \<open>tmax\<close> and strictly below \<open>tmax + tstep\<close>; the last element is \<open>tmax\<close> exactly when
  \<open>tmax - tmin\<close> is a multiple of \<open>tstep\<close>.
\<close>

theorem C1_step_mesh:
  assumes "resolve_args e c = Inr args"
    and "bind_err (getattr args ''tmin'') number = Inr tmin"
    and "bind_err (getattr args ''tmax'') number = Inr tmax"
    and "bind_err (getattr args ''tstep'') number = Inr tstep"
    and "tmin = of_int a * pow2 k" and "tmax = of_int b * pow2 k"
    and "tstep = of_int s * pow2 k"
    and "\<bar>a\<bar> \<le> 2 ^ 50" and "\<bar>b\<bar> \<le> 2 ^ 50" and "s \<le> 2 ^ 50"
    and "- 1074 \<le> k" and "k \<le> 971"
    and "0 < tstep" and "tmin \<le> tmax"
  shows "\<exists>ts. make_mesh args = Inr ts
           \<and> ts = map (\<lambda>i. tmin + of_nat i * tstep) [0 ..< length ts]
           \<and> ts \<noteq> [] \<and> sorted_wrt (<) ts \<and> hd ts = tmin
           \<and> tmax \<le> last ts \<and> last ts < tmax + tstep
           \<and> (last ts = tmax) = (\<exists>j::nat. tmax - tmin = of_nat j * tstep)"
proof -
  have "0 < of_int s * pow2 k" using assms(7,13) by simp
  then have spos: "0 < s" using pow2_pos [of k] by (simp add: zero_less_mult_iff)
  have "of_int a * pow2 k \<le> of_int b * pow2 k" using assms(5,6,14) by simp
  then have ab: "a \<le> b" using pow2_pos [of k] by simp
  have "''tstep'' \<in> set (map fst args)" using assms(1) by (rule keys_resolve_args)
  then have "make_mesh args = step_mesh args" by (simp add: make_mesh_def mesh_mode_tstep)
  also have "\<dots> = Inr (map (\<lambda>i. (of_int a + of_nat i * of_int s) * pow2 k)
                [0 ..< nat \<lceil>(of_int (b + s - a) / of_int s :: rat)\<rceil>])"
    using step_mesh_exact [OF assms(2,3,4) [unfolded assms(5,6,7)] assms(8,9,10,11) spos ab] .
  finally show ?thesis
    using exact_mesh_properties [OF assms(5,6,7,13,14)] by blast
qed

theorem C1_step_mesh_witness:
  "resolve_args example_env
      (default_cli\<lparr>cli_tmin := Some 1, cli_tmax := Some (5 / 2), cli_tstep := Some (1 / 2)\<rparr>)
     = Inr (parse_args
         (default_cli\<lparr>cli_tmin := Some 1, cli_tmax := Some (5 / 2), cli_tstep := Some (1 / 2)\<rparr>))
   \<and> make_mesh (parse_args
         (default_cli\<lparr>cli_tmin := Some 1, cli_tmax := Some (5 / 2), cli_tstep := Some (1 / 2)\<rparr>))
     = Inr [1, 3 / 2, 2, 5 / 2]
   \<and> (\<exists>args ts. resolve_args example_env (default_cli\<lparr>cli_file := Some ''sweep.cfg''\<rparr>) = Inr args
         \<and> make_mesh args = Inr ts \<and> hd ts = 100 \<and> last ts = 300 \<and> length ts = 3)"
proof -
  let ?c = "default_cli\<lparr>cli_tmin := Some 1, cli_tmax := Some (5 / 2), cli_tstep := Some (1 / 2)\<rparr>"
  have r: "resolve_args example_env ?c = Inr (parse_args ?c)" by code_simp
  have g1: "bind_err (getattr (parse_args ?c) ''tmin'') number = Inr 1" by code_simp
  have g2: "bind_err (getattr (parse_args ?c) ''tmax'') number = Inr (5 / 2)" by code_simp
  have g3: "bind_err (getattr (parse_args ?c) ''tstep'') number = Inr (1 / 2)" by code_simp
  have v: "(1::rat) = of_int 2 * pow2 (- 1)" "(5 / 2 :: rat) = of_int 5 * pow2 (- 1)"
    "(1 / 2 :: rat) = of_int 1 * pow2 (- 1)"
    by (simp_all add: pow2_def)
  have b: "\<bar>2::int\<bar> \<le> 2 ^ 50" "\<bar>5::int\<bar> \<le> 2 ^ 50" "(1::int) \<le> 2 ^ 50"
    "- 1074 \<le> (- 1 :: int)" "(- 1 :: int) \<le> 971" "(0::rat) < 1 / 2" "(1::rat) \<le> 5 / 2"
    by simp_all
  from C1_step_mesh [OF r g1 g2 g3 v b]
  obtain ts where ts: "make_mesh (parse_args ?c) = Inr ts" by blast
  have m: "make_mesh (parse_args ?c) = Inr [1, 3 / 2, 2, 5 / 2]" by code_simp
  let ?d = "default_cli\<lparr>cli_file := Some ''sweep.cfg''\<rparr>"
  let ?args = "[(''tmin'', PFloat 100), (''tmax'', PFloat 300), (''tstep'', PInt 100),
            (''steps'', PInt 11), (''binary'', PStr ''/opt/sim''), (''base'', PStr ''Base''),
            (''file'', PStr ''sweep.cfg'')]"
  have r2: "resolve_args example_env ?d = Inr ?args" by code_simp
  have h1: "bind_err (getattr ?args ''tmin'') number = Inr 100" by code_simp
  have h2: "bind_err (getattr ?args ''tmax'') number = Inr 300" by code_simp
  have h3: "bind_err (getattr ?args ''tstep'') number = Inr 100" by code_simp
  have v2: "(100::rat) = of_int 100 * pow2 0" "(300::rat) = of_int 300 * pow2 0"
    by (simp_all add: pow2_def)
  have b2: "\<bar>100::int\<bar> \<le> 2 ^ 50" "\<bar>300::int\<bar> \<le> 2 ^ 50" "(100::int) \<le> 2 ^ 50"
    "- 1074 \<le> (0 :: int)" "(0 :: int) \<le> 971" "(0::rat) < 100" "(100::rat) \<le> 300"
    by simp_all
  from C1_step_mesh [OF r2 h1 h2 h3 v2(1) v2(2) v2(1) b2]
  obtain us where us: "make_mesh ?args = Inr us"
    "us = map (\<lambda>i. 100 + of_nat i * 100) [0 ..< length us]" "us \<noteq> []" "hd us = 100"
    "(last us = 300) = (\<exists>j::nat. (300::rat) - 100 = of_nat j * 100)"
    by blast
  have "(300::rat) - 100 = of_nat 2 * 100" by simp
  then have "\<exists>j::nat. (300::rat) - 100 = of_nat j * 100" ..
  with us(5) have l: "last us = 300" by simp
  have "make_mesh ?args = Inr [100, 200, 300]" by code_simp
  with us(1) have "us = [100, 200, 300]" by simp
  then have "length us = 3" by simp
  with r2 us(1,4) l have "\<exists>args ts. resolve_args example_env ?d = Inr args
         \<and> make_mesh args = Inr ts \<and> hd ts = 100 \<and> last ts = 300 \<and> length ts = 3"
    by blast
  with r m show ?thesis by blast
qed

text \<open>
  The claim as it was stated asks for a last element strictly above \<open>tmax\<close>. With the
  defaults of the program (0, 500, 100) the mesh is 0, 100, ..., 500: its last element is
  \<open>tmax\<close> itself. And where the arithmetic rounds, neither bound holds: with
  \<^verbatim>\<open>--tmin 0 --tmax 0.9 --tstep 0.3\<close> the mesh has four elements and ends at
  \<open>0.8999999999999999\<close>, below \<open>tmax\<close>, and with \<^verbatim>\<open>--tmin 1 --tmax 1.2 --tstep 0.1\<close> it
  ends at \<open>1.3000000000000003\<close>, above \<open>tmax + tstep\<close>.
\<close>

theorem C1_counterexample:
  "bind_err (resolve_args example_env default_cli) make_mesh
     = Inr [0, 100, 200, 300, 400, 500]
   \<and> \<not> (500 < last [0, 100, 200, 300, 400, 500 :: rat])
   \<and> bind_err (resolve_args example_env
          (default_cli\<lparr>cli_tmin := Some 0, cli_tmax := Some (double (9 / 10)),
             cli_tstep := Some (double (3 / 10))\<rparr>)) make_mesh
     = Inr [0, 5404319552844595 / 18014398509481984, 5404319552844595 / 9007199254740992,
            2026619832316723 / 2251799813685248]
   \<and> 2026619832316723 / 2251799813685248 < double (9 / 10)
   \<and> bind_err (resolve_args example_env
          (default_cli\<lparr>cli_tmin := Some 1, cli_tmax := Some (double (12 / 10)),
             cli_tstep := Some (double (1 / 10))\<rparr>)) make_mesh
     = Inr [1, 2476979795053773 / 2251799813685248, 1351079888211149 / 1125899906842624,
            2927339757790823 / 2251799813685248]
   \<and> double (double (12 / 10) + double (1 / 10)) < 2927339757790823 / 2251799813685248"
proof -
  have "bind_err (resolve_args example_env default_cli) make_mesh
     = Inr [0, 100, 200, 300, 400, 500]" by code_simp
  moreover have "bind_err (resolve_args example_env
          (default_cli\<lparr>cli_tmin := Some 0, cli_tmax := Some (double (9 / 10)),
             cli_tstep := Some (double (3 / 10))\<rparr>)) make_mesh
     = Inr [0, 5404319552844595 / 18014398509481984, 5404319552844595 / 9007199254740992,
            2026619832316723 / 2251799813685248]" by code_simp
  moreover have "2026619832316723 / 2251799813685248 < double (9 / 10)" by code_simp
  moreover have "bind_err (resolve_args example_env
          (default_cli\<lparr>cli_tmin := Some 1, cli_tmax := Some (double (12 / 10)),
             cli_tstep := Some (double (1 / 10))\<rparr>)) make_mesh
     = Inr [1, 2476979795053773 / 2251799813685248, 1351079888211149 / 1125899906842624,
            2927339757790823 / 2251799813685248]" by code_simp
  moreover have "double (double (12 / 10) + double (1 / 10))
      < 2927339757790823 / 2251799813685248" by code_simp
  ultimately show ?thesis by simp
qed

text \<open>
  Claim C2. Whenever the configuration is resolved, the attribute dictionary has the key
  \<open>tstep\<close>, so the first test of the mesh computation succeeds: the mesh is the one of
  the step-mode branch, and neither the count-mode branch nor the exit with status 1
  (\<^verbatim>\<open>No temperature step or number of steps provided\<close>) is taken.
\<close>

theorem C2_step_mode_always:
  "resolve_args e c = Inr args \<Longrightarrow>
   list_ex (\<lambda>arg. py_in ''tstep'' arg) (map fst args)
   \<and> mesh_mode args = StepMode \<and> make_mesh args = step_mesh args
   \<and> make_mesh args \<noteq> Inl (SystemExit 1)"
proof -
  assume r: "resolve_args e c = Inr args"
  have k: "''tstep'' \<in> set (map fst args)" using r by (rule keys_resolve_args)
  have "list_ex (\<lambda>arg. py_in ''tstep'' arg) (map fst args)"
    unfolding list_ex_iff using k tstep_in_tstep by blast
  then show ?thesis
    using mesh_mode_tstep [OF k] step_mesh_not_exit [of args 1] by (simp add: make_mesh_def)
qed

theorem C2_step_mode_always_witness:
  "resolve_args example_env (default_cli\<lparr>cli_file := Some ''sweep.cfg''\<rparr>)
     = Inr [(''tmin'', PFloat 100), (''tmax'', PFloat 300), (''tstep'', PInt 100),
            (''steps'', PInt 11), (''binary'', PStr ''/opt/sim''), (''base'', PStr ''Base''),
            (''file'', PStr ''sweep.cfg'')]
   \<and> make_mesh [(''tmin'', PFloat 100), (''tmax'', PFloat 300), (''tstep'', PInt 100),
            (''steps'', PInt 11), (''binary'', PStr ''/opt/sim''), (''base'', PStr ''Base''),
            (''file'', PStr ''sweep.cfg'')] = Inr [100, 200, 300]"
proof -
  let ?args = "[(''tmin'', PFloat 100), (''tmax'', PFloat 300), (''tstep'', PInt 100),
            (''steps'', PInt 11), (''binary'', PStr ''/opt/sim''), (''base'', PStr ''Base''),
            (''file'', PStr ''sweep.cfg'')]"
  have h: "resolve_args example_env (default_cli\<lparr>cli_file := Some ''sweep.cfg''\<rparr>) = Inr ?args"
    by code_simp
  have "step_mesh ?args = Inr [100, 200, 300]" by code_simp
  with C2_step_mode_always [OF h] h show ?thesis by simp
qed

text \<open>
  Claim C3 does not hold of the code: the value of \<open>tstep\<close> is converted with
  \<^verbatim>\<open>int\<close>, not with \<^verbatim>\<open>float\<close>. A configuration file with the line \<^verbatim>\<open>tstep=0.5\<close>
  ends in \<^verbatim>\<open>ValueError\<close>, whatever the reader of floats is, while the flag
  \<^verbatim>\<open>--tstep 0.5\<close> gives the step 1/2. When a file is given that has no \<open>tstep\<close> line,
  the step 1/2 of the command line is truncated to 0 and the mesh computation fails.
\<close>

theorem C3_tstep_int_conversion:
  "resolve_args (env_reading f ''tstep=0.5'')
       (default_cli\<lparr>cli_file := Some ''sweep.cfg''\<rparr>) = Inl ValueError
   \<and> bind_err (resolve_args (env_reading f []) (default_cli\<lparr>cli_tstep := Some (1 / 2)\<rparr>))
        (\<lambda>args. getattr args ''tstep'') = Inr (PFloat (1 / 2))
   \<and> bind_err (resolve_args (env_reading f [])
          (default_cli\<lparr>cli_tstep := Some (1 / 2), cli_file := Some ''sweep.cfg''\<rparr>))
        (\<lambda>args. getattr args ''tstep'') = Inr (PInt 0)
   \<and> bind_err (resolve_args (env_reading f [])
          (default_cli\<lparr>cli_tstep := Some (1 / 2), cli_file := Some ''sweep.cfg''\<rparr>))
        make_mesh = Inl ZeroDivisionError"
  by code_simp

section \<open>Materializing a workspace\<close>

text \<open>
  Claim C5. In a well-formed tree, every file below the folder whose suffix is not
  \<open>.exe\<close> or \<open>.bin\<close> and whose content is text ends with every occurrence of \<open>TEMP\<close>
  replaced by the decimal string of the rounded temperature (the text after the
  replacement has no occurrence of \<open>TEMP\<close> left, and a text without the token is
  unchanged); it is written back exactly when the new text differs from the old one.
  A file that does not decode as text keeps its content and is not written, and so does
  a file with an excluded suffix; the function returns without an error in every case.
  The mode of a file is kept. The walk with the permission checks leaves the same
  tree whenever it raises nothing, and it raises nothing for the superuser.
  A base directory with one file \<open>T=TEMP K\<close>, materialized at 310.4, gives a workspace
  \<open>T_0310\<close> whose file reads \<open>T=310 K\<close>. At 310.5 the token becomes \<open>310\<close> in a file
  \<open>b.BIN\<close>, in a file \<open>.bin\<close> (a name without a suffix) and twice in \<open>xTEMPTEMPy\<close>, and
  stays in \<open>a.exe\<close> and \<open>c.tar.bin\<close>; at 311.5 it becomes \<open>312\<close>, and at -1.5 it becomes
  \<open>-2\<close>.
\<close>

theorem C5_replace_temperature_strings:
  "(distinct_names es \<and> lookup es p = Some (File m c) \<longrightarrow>
      lookup (replace_temperature_strings es t) p =
        Some (File m (case c of
                      Text s \<Rightarrow> if path_suffix (last p) \<in> set [''.exe'', ''.bin'']
                                then Text s else Text (replace_TEMP t s)
                    | Undecodable b \<Rightarrow> Undecodable b))
      \<and> (p \<in> set (written_files es t)) =
          (case c of
             Text s \<Rightarrow> path_suffix (last p) \<notin> set [''.exe'', ''.bin'']
                        \<and> replace_TEMP t s \<noteq> s
           | Undecodable b \<Rightarrow> False))
   \<and> replace_TEMP t s = py_replace ''TEMP'' (py_str_int (py_round t)) s
   \<and> \<not> sublist ''TEMP'' (replace_TEMP t s)
   \<and> (\<not> sublist ''TEMP'' s \<longrightarrow> replace_TEMP t s = s)
   \<and> materialize False (1552 / 5) [''Base'']
        [(''Base'', Dir [(''inpsd.dat'', File rw (Text ''T=TEMP K''))])] =
      Inr [(''Base'', Dir [(''inpsd.dat'', File rw (Text ''T=TEMP K''))]),
           (''T_0310'', Dir [(''inpsd.dat'', File rw (Text ''T=310 K''))])]
   \<and> (fst (walk su t es) = None \<longrightarrow> snd (walk su t es) = replace_temperature_strings es t)
   \<and> walk True t es = (None, replace_temperature_strings es t)
   \<and> replace_temperature_strings
        [(''a.exe'', File rw (Text ''TEMP'')), (''b.BIN'', File rw (Text ''TEMP'')),
         (''.bin'', File rw (Text ''TEMP'')), (''c.tar.bin'', File rw (Text ''TEMP'')),
         (''d'', Dir [(''e.txt'', File (Mode True False) (Text ''xTEMPTEMPy''))])] (621 / 2) =
        [(''a.exe'', File rw (Text ''TEMP'')), (''b.BIN'', File rw (Text ''310'')),
         (''.bin'', File rw (Text ''310'')), (''c.tar.bin'', File rw (Text ''TEMP'')),
         (''d'', Dir [(''e.txt'', File (Mode True False) (Text ''x310310y''))])]
   \<and> replace_TEMP (623 / 2) ''T=TEMP K'' = ''T=312 K''
   \<and> replace_TEMP (- 3 / 2) ''T=TEMP K'' = ''T=-2 K''"
proof -
  have a: "lookup (replace_temperature_strings es t) p =
        Some (File m (case c of
                      Text s \<Rightarrow> if path_suffix (last p) \<in> set [''.exe'', ''.bin'']
                                then Text s else Text (replace_TEMP t s)
                    | Undecodable b \<Rightarrow> Undecodable b))"
    if "lookup es p = Some (File m c)"
    using lookup_rts_file [OF that, of t]
    by (auto simp add: rewrite_file_def Let_def split: content.splits)
  have b: "(p \<in> set (written_files es t)) =
          (case c of
             Text s \<Rightarrow> path_suffix (last p) \<notin> set [''.exe'', ''.bin'']
                        \<and> replace_TEMP t s \<noteq> s
           | Undecodable b \<Rightarrow> False)"
    if "distinct_names es" "lookup es p = Some (File m c)"
    using written_files_iff [OF that, of t]
    by (auto simp add: rewrite_file_def Let_def split: content.splits)
  have c: "replace_TEMP t s = py_replace ''TEMP'' (py_str_int (py_round t)) s"
    by (simp add: replace_TEMP_def temperature_text_def)
  have d: "\<not> sublist ''TEMP'' (replace_TEMP t s)" by (rule replace_TEMP_no_TEMP)
  have e: "replace_TEMP t s = s" if "\<not> sublist ''TEMP'' s"
    using that by (simp add: replace_TEMP_def py_replace_absent)
  have f: "materialize False (1552 / 5) [''Base'']
        [(''Base'', Dir [(''inpsd.dat'', File rw (Text ''T=TEMP K''))])] =
      Inr [(''Base'', Dir [(''inpsd.dat'', File rw (Text ''T=TEMP K''))]),
           (''T_0310'', Dir [(''inpsd.dat'', File rw (Text ''T=310 K''))])]"
    by code_simp
  have g: "snd (walk su t es) = replace_temperature_strings es t"
    if "fst (walk su t es) = None"
    using that walk_result [of su t es "snd (walk su t es)"] by (cases "walk su t es") simp
  have h: "walk True t es = (None, replace_temperature_strings es t)"
    using tree_refused_superuser by (rule walk_permitted)
  have i: "replace_temperature_strings
        [(''a.exe'', File rw (Text ''TEMP'')), (''b.BIN'', File rw (Text ''TEMP'')),
         (''.bin'', File rw (Text ''TEMP'')), (''c.tar.bin'', File rw (Text ''TEMP'')),
         (''d'', Dir [(''e.txt'', File (Mode True False) (Text ''xTEMPTEMPy''))])] (621 / 2) =
        [(''a.exe'', File rw (Text ''TEMP'')), (''b.BIN'', File rw (Text ''310'')),
         (''.bin'', File rw (Text ''310'')), (''c.tar.bin'', File rw (Text ''TEMP'')),
         (''d'', Dir [(''e.txt'', File (Mode True False) (Text ''x310310y''))])]"
    by code_simp
  have j: "replace_TEMP (623 / 2) ''T=TEMP K'' = ''T=312 K''" by code_simp
  have k: "replace_TEMP (- 3 / 2) ''T=TEMP K'' = ''T=-2 K''" by code_simp
  from a b c d e f g h i j k show ?thesis by blast
qed

theorem C5_replace_temperature_strings_witness:
  "distinct_names example_base
   \<and> lookup example_base [''sub'', ''a.txt''] = Some (File rw (Text ''TEMP TEMP''))
   \<and> lookup (replace_temperature_strings example_base (1552 / 5)) [''sub'', ''a.txt'']
       = Some (File rw (Text ''310 310''))
   \<and> [''sub'', ''a.txt''] \<in> set (written_files example_base (1552 / 5))
   \<and> lookup example_base [''blob''] = Some (File rw (Undecodable ''xx''))
   \<and> lookup (replace_temperature_strings example_base (1552 / 5)) [''blob'']
       = Some (File rw (Undecodable ''xx''))
   \<and> [''blob''] \<notin> set (written_files example_base (1552 / 5))
   \<and> fst (walk False (1552 / 5) example_base) = None
   \<and> snd (walk False (1552 / 5) example_base)
       = replace_temperature_strings example_base (1552 / 5)"
proof -
  have d: "distinct_names example_base" by code_simp
  have l1: "lookup example_base [''sub'', ''a.txt''] = Some (File rw (Text ''TEMP TEMP''))"
    by code_simp
  have l2: "lookup example_base [''blob''] = Some (File rw (Undecodable ''xx''))" by code_simp
  have s: "path_suffix (last [''sub'', ''a.txt'']) \<notin> set [''.exe'', ''.bin'']" by code_simp
  have r: "replace_TEMP (1552 / 5) ''TEMP TEMP'' = ''310 310''" by code_simp
  have w: "fst (walk False (1552 / 5) example_base) = None" by code_simp
  note thm1 = C5_replace_temperature_strings
    [of example_base "[''sub'', ''a.txt'']" rw "Text ''TEMP TEMP''" "1552 / 5" "[]" False]
  from thm1 d l1
  have "lookup (replace_temperature_strings example_base (1552 / 5)) [''sub'', ''a.txt'']
       = Some (File rw (case Text ''TEMP TEMP'' of
                      Text s \<Rightarrow> if path_suffix (last [''sub'', ''a.txt'']) \<in> set [''.exe'', ''.bin'']
                                then Text s else Text (replace_TEMP (1552 / 5) s)
                    | Undecodable b \<Rightarrow> Undecodable b))"
    and "([''sub'', ''a.txt''] \<in> set (written_files example_base (1552 / 5))) =
          (case Text ''TEMP TEMP'' of
             Text s \<Rightarrow> path_suffix (last [''sub'', ''a.txt'']) \<notin> set [''.exe'', ''.bin'']
                        \<and> replace_TEMP (1552 / 5) s \<noteq> s
           | Undecodable b \<Rightarrow> False)"
    by blast+
  with s r have a: "lookup (replace_temperature_strings example_base (1552 / 5)) [''sub'', ''a.txt'']
       = Some (File rw (Text ''310 310''))"
    and b: "[''sub'', ''a.txt''] \<in> set (written_files example_base (1552 / 5))"
    by simp_all
  from thm1 w have g: "snd (walk False (1552 / 5) example_base)
       = replace_temperature_strings example_base (1552 / 5)" by blast
  from C5_replace_temperature_strings
    [of example_base "[''blob'']" rw "Undecodable ''xx''" "1552 / 5" "[]" False] d l2
  have "lookup (replace_temperature_strings example_base (1552 / 5)) [''blob'']
       = Some (File rw (case Undecodable ''xx'' of
                      Text s \<Rightarrow> if path_suffix (last [''blob'']) \<in> set [''.exe'', ''.bin'']
                                then Text s else Text (replace_TEMP (1552 / 5) s)
                    | Undecodable b \<Rightarrow> Undecodable b))"
    and "([''blob''] \<in> set (written_files example_base (1552 / 5))) =
          (case Undecodable ''xx'' of
             Text s \<Rightarrow> path_suffix (last [''blob'']) \<notin> set [''.exe'', ''.bin'']
                        \<and> replace_TEMP (1552 / 5) s \<noteq> s
           | Undecodable b \<Rightarrow> False)"
    by blast+
  then have c: "lookup (replace_temperature_strings example_base (1552 / 5)) [''blob'']
       = Some (File rw (Undecodable ''xx''))"
    and e: "[''blob''] \<notin> set (written_files example_base (1552 / 5))"
    by simp_all
  from d l1 a b l2 c e w g show ?thesis by blast
qed

section \<open>Failures of a run\<close>



text \<open>
  Claim C9, as amended. If there is no directory at the base path, and the base path is
  not the workspace directory of the temperature itself, \<^verbatim>\<open>run_simulation\<close> raises an
  \<^verbatim>\<open>OSError\<close> before \<^verbatim>\<open>out.log\<close> is opened and before any process is started: the files
  are those from before, with at most the empty workspace directory added, and the sweep
  ends with this exception and exit status 1.
\<close>

theorem C9_missing_base:
  assumes "\<not> is_dir (files w) (parts_of_path e base)"
    and "parts_of_path e base \<noteq> [folder_name t]"
    and "bind_err (getattr args ''base'') string_of = Inr base"
  shows "\<exists>err w'.
       run_simulation (process e) t (parts_of_path e base) bin w = Inl (err, w')
     \<and> sweep e args bin (t # ts) w = Inl (err, w')
     \<and> is_os_error err
     \<and> exit_status err = 1
     \<and> spawned w' = spawned w
     \<and> (files w' = files w \<or> files w' = files w @ [(folder_name t, Dir [])])
     \<and> lookup (files w') [folder_name t, ''out.log'']
         = lookup (files w) [folder_name t, ''out.log'']"
proof (cases "mkdir_exist_ok (folder_name t) (files w)")
  case (Inl e0)
  then have e0: "e0 = FileExistsError" by (rule mkdir_error)
  with Inl have "run_simulation (process e) t (parts_of_path e base) bin w
      = Inl (FileExistsError, w\<lparr>files := files w\<rparr>)"
    by (simp add: run_simulation_def materialize_def Let_def)
  then show ?thesis using assms(3) by (simp add: exit_status_def is_os_error_def)
next
  case (Inr fs1)
  have "\<not> is_dir fs1 (parts_of_path e base)"
    using is_dir_mkdir [OF assms(1,2) Inr] .
  then obtain e1 where i: "iterdir fs1 (parts_of_path e base) = Inl e1"
    using iterdir_not_dir by blast
  from iterdir_error [OF i] have k: "is_os_error e1" "exit_status e1 = 1"
    by (auto simp add: is_os_error_def exit_status_def)
  from Inr i have r: "run_simulation (process e) t (parts_of_path e base) bin w
      = Inl (e1, w\<lparr>files := fs1\<rparr>)"
    by (simp add: run_simulation_def materialize_def Let_def)
  have "lookup fs1 [folder_name t, ''out.log''] = lookup (files w) [folder_name t, ''out.log'']"
    unfolding lookup_two using entries_of_mkdir [OF Inr] by simp
  moreover have "fs1 = files w \<or> fs1 = files w @ [(folder_name t, Dir [])]"
    using mkdir_cases [OF Inr] by blast
  ultimately show ?thesis using r k assms(3) by simp
qed

theorem C9_missing_base_witness:
  "\<not> is_dir (files start_world) (parts_of_path failing_env ''Templates'')
   \<and> parts_of_path failing_env ''Templates'' \<noteq> [folder_name 100]
   \<and> (\<exists>err w'.
       run_simulation (process failing_env) 100 (parts_of_path failing_env ''Templates'')
          ''uppasd'' start_world = Inl (err, w')
     \<and> sweep failing_env (parse_args (default_cli\<lparr>cli_base := Some ''Templates''\<rparr>))
          ''uppasd'' (100 # [200]) start_world = Inl (err, w')
     \<and> is_os_error err
     \<and> exit_status err = 1
     \<and> spawned w' = spawned start_world
     \<and> lookup (files w') [folder_name 100, ''out.log'']
         = lookup (files start_world) [folder_name 100, ''out.log''])
   \<and> \<not> is_dir [(''f'', File rw (Text ''x''))] (parts_of_path failing_env ''f/x'')
   \<and> run_simulation (process failing_env) 100 (parts_of_path failing_env ''f/x'') ''uppasd''
        \<lparr>files = [(''f'', File rw (Text ''x''))], spawned = [], superuser = False\<rparr>
      = Inl (NotADirectoryError,
          \<lparr>files = [(''f'', File rw (Text ''x'')), (''T_0100'', Dir [])], spawned = [],
             superuser = False\<rparr>)"
proof -
  have h1: "\<not> is_dir (files start_world) (parts_of_path failing_env ''Templates'')"
    by code_simp
  have h2: "parts_of_path failing_env ''Templates'' \<noteq> [folder_name 100]" by code_simp
  have h3: "bind_err (getattr (parse_args (default_cli\<lparr>cli_base := Some ''Templates''\<rparr>)) ''base'')
      string_of = Inr ''Templates''" by code_simp
  let ?w = "\<lparr>files = [(''f'', File rw (Text ''x''))], spawned = [], superuser = False\<rparr>"
  have k1: "\<not> is_dir (files ?w) (parts_of_path failing_env ''f/x'')" by code_simp
  have k2: "parts_of_path failing_env ''f/x'' \<noteq> [folder_name 100]" by code_simp
  have k3: "bind_err (getattr (parse_args (default_cli\<lparr>cli_base := Some ''f/x''\<rparr>)) ''base'')
      string_of = Inr ''f/x''" by code_simp
  from C9_missing_base [OF k1 k2 k3, of "''uppasd''" "[]"]
  obtain err w' where "run_simulation (process failing_env) 100
      (parts_of_path failing_env ''f/x'') ''uppasd'' ?w = Inl (err, w')" by blast
  have r: "run_simulation (process failing_env) 100 (parts_of_path failing_env ''f/x'') ''uppasd''
        ?w = Inl (NotADirectoryError,
          \<lparr>files = [(''f'', File rw (Text ''x'')), (''T_0100'', Dir [])], spawned = [],
             superuser = False\<rparr>)" by code_simp
  from k1 have k1': "\<not> is_dir [(''f'', File rw (Text ''x''))] (parts_of_path failing_env ''f/x'')"
    by simp
  from C9_missing_base [OF h1 h2 h3, of "''uppasd''" "[200]"]
  show ?thesis using h1 h2 k1' r by blast
qed

text \<open>
  The claim as it was stated fails when the base path names the workspace itself:
  \<^verbatim>\<open>mkdir\<close> creates the directory before the base is read, so a base \<^verbatim>\<open>T_0000\<close> that does
  not exist is found, empty, at temperature 0; \<^verbatim>\<open>out.log\<close> is created and the binary is
  run.
\<close>

theorem C9_counterexample:
  "\<not> is_dir (files \<lparr>files = [], spawned = [], superuser = False\<rparr>) [''T_0000'']
   \<and> lookup (files \<lparr>files = [], spawned = [], superuser = False\<rparr>) [''T_0000''] = None
   \<and> run_simulation (\<lambda>binary folder fs. Some (0, Text ''done'')) 0 [''T_0000''] ''uppasd''
        \<lparr>files = [], spawned = [], superuser = False\<rparr>
      = Inr \<lparr>files = [(''T_0000'', Dir [(''out.log'', File rw (Text ''done''))])],
             spawned = [(''uppasd'', ''T_0000'')], superuser = False\<rparr>"
  by code_simp

section \<open>Materializing twice\<close>

text \<open>
  Claim C8, as amended. Let the tree be well formed, let the base directory be neither
  the working directory nor the workspace nor a directory inside it, let every file of
  the base directory have the write permission of its owner (or let the user be the
  superuser), and let the materialization of a temperature succeed. Then materializing
  the same temperature again succeeds and leaves the tree exactly as the first
  materialization left it: the existing workspace directory is no error for \<^verbatim>\<open>mkdir\<close>,
  and no file is added, removed or changed. Replacing the token twice equals replacing
  it once, in one text and in a whole folder, because the replacement string has no
  occurrence of \<open>TEMP\<close>; and a walk that has raised nothing raises nothing when it is
  run again, and changes nothing.
\<close>

theorem C8_materialize_twice:
  assumes "distinct_names fs" and "base \<noteq> []" and "hd base \<noteq> folder_name t"
    and "lookup fs base = Some (Dir items)" and "su \<or> files_writable items"
    and "materialize su t base fs = Inr fs1"
  shows "materialize su t base fs1 = Inr fs1
     \<and> mkdir_exist_ok (folder_name t) fs1 = Inr fs1
     \<and> replace_temperature_strings (replace_temperature_strings ws t) t
         = replace_temperature_strings ws t
     \<and> (walk su t ws = (None, ws') \<longrightarrow> walk su t ws' = (None, ws'))
     \<and> replace_TEMP t (replace_TEMP t s) = replace_TEMP t s
     \<and> \<not> sublist ''TEMP'' (temperature_text t)"
proof -
  have "materialize su t base fs1 = Inr fs1" using assms by (rule materialize_again)
  moreover have "mkdir_exist_ok (folder_name t) fs1 = Inr fs1"
    using materialize_folder_is_dir [OF assms(6)] by (auto simp add: mkdir_exist_ok_def)
  moreover have "walk su t ws' = (None, ws')" if w: "walk su t ws = (None, ws')"
  proof -
    from walk_result [OF w] have r: "ws' = replace_temperature_strings ws t" .
    from w have "\<not> tree_refused su t ws" using walk_None_iff [of su t ws] by simp
    then have "\<not> tree_refused su t ws'" unfolding r by (rule tree_refused_rts)
    from walk_permitted [OF this] show ?thesis by (simp add: r rts_idem)
  qed
  ultimately show ?thesis
    by (simp add: rts_idem replace_TEMP_idem temperature_text_no_TEMP)
qed

theorem C8_materialize_twice_witness:
  "distinct_names example_files
   \<and> [''Base''] \<noteq> ([] :: path)
   \<and> hd [''Base''] \<noteq> folder_name (1552 / 5)
   \<and> lookup example_files [''Base''] = Some (Dir example_base)
   \<and> files_writable example_base
   \<and> materialize False (1552 / 5) [''Base''] example_files = Inr example_materialized
   \<and> materialize False (1552 / 5) [''Base''] example_materialized = Inr example_materialized
   \<and> walk False (1552 / 5) example_base
       = (None, replace_temperature_strings example_base (1552 / 5))
   \<and> walk False (1552 / 5) (replace_temperature_strings example_base (1552 / 5))
       = (None, replace_temperature_strings example_base (1552 / 5))
   \<and> replace_TEMP (1552 / 5) (replace_TEMP (1552 / 5) ''T=TEMP K'') = ''T=310 K''"
proof -
  have h1: "distinct_names example_files" by code_simp
  have h2: "[''Base''] \<noteq> ([] :: path)" by simp
  have h3: "hd [''Base''] \<noteq> folder_name (1552 / 5)" by code_simp
  have h4: "lookup example_files [''Base''] = Some (Dir example_base)" by code_simp
  have w: "files_writable example_base" by code_simp
  then have h5: "False \<or> files_writable example_base" by simp
  have h6: "materialize False (1552 / 5) [''Base''] example_files = Inr example_materialized"
    by code_simp
  have r: "replace_TEMP (1552 / 5) ''T=TEMP K'' = ''T=310 K''" by code_simp
  have k: "walk False (1552 / 5) example_base
       = (None, replace_temperature_strings example_base (1552 / 5))" by code_simp
  from C8_materialize_twice [OF h1 h2 h3 h4 h5 h6, of example_base
      "replace_temperature_strings example_base (1552 / 5)" "''T=TEMP K''"] k
  have "materialize False (1552 / 5) [''Base''] example_materialized = Inr example_materialized"
    and "walk False (1552 / 5) (replace_temperature_strings example_base (1552 / 5))
       = (None, replace_temperature_strings example_base (1552 / 5))"
    and "replace_TEMP (1552 / 5) (replace_TEMP (1552 / 5) ''T=TEMP K'')
       = replace_TEMP (1552 / 5) ''T=TEMP K''"
    by blast+
  with r h1 h2 h3 h4 w h6 k show ?thesis by simp
qed

text \<open>
  The claim as it was stated fails when the base directory holds the workspace or lies
  in it. With the working directory as the base (\<^verbatim>\<open>--base .\<close>) and nothing in it, the
  first materialization at temperature 0 creates \<^verbatim>\<open>T_0000\<close> and copies it, still
  empty, to \<^verbatim>\<open>T_0000/T_0000\<close>; the second one copies \<^verbatim>\<open>T_0000\<close>, which now has an
  entry, and creates \<^verbatim>\<open>T_0000/T_0000/T_0000\<close>. With the base \<^verbatim>\<open>T_0000/tpl\<close> inside the
  workspace, holding a directory \<^verbatim>\<open>tpl\<close> with a file \<^verbatim>\<open>g\<close>, the first materialization
  copies \<^verbatim>\<open>g\<close> into the base, and the second one copies it from there into the
  workspace: a file \<^verbatim>\<open>T_0000/g\<close> that the first materialization did not leave.

  It also fails for a base directory apart from the workspace that holds a read-only
  file: \<^verbatim>\<open>copy2\<close> gives the copy the mode of the source, so the first materialization
  leaves a read-only file in the workspace, and the second one, for a user other than
  the superuser, cannot open it for writing and raises \<^verbatim>\<open>PermissionError\<close>.
\<close>

theorem C8_counterexample:
  "materialize False 0 [] [] = Inr [(''T_0000'', Dir [(''T_0000'', Dir [])])]
   \<and> materialize False 0 [] [(''T_0000'', Dir [(''T_0000'', Dir [])])]
       = Inr [(''T_0000'', Dir [(''T_0000'', Dir [(''T_0000'', Dir [])])])]
   \<and> [(''T_0000'', Dir [(''T_0000'', Dir [(''T_0000'', Dir [])])])]
       \<noteq> [(''T_0000'', Dir [(''T_0000'', Dir [])])]
   \<and> materialize False 0 [''T_0000'', ''tpl'']
        [(''T_0000'', Dir [(''tpl'', Dir [(''tpl'', Dir [(''g'', File rw (Text ''x''))])])])]
       = Inr [(''T_0000'', Dir [(''tpl'', Dir [(''tpl'', Dir [(''g'', File rw (Text ''x''))]),
                                                (''g'', File rw (Text ''x''))])])]
   \<and> materialize False 0 [''T_0000'', ''tpl'']
        [(''T_0000'', Dir [(''tpl'', Dir [(''tpl'', Dir [(''g'', File rw (Text ''x''))]),
                                           (''g'', File rw (Text ''x''))])])]
       = Inr [(''T_0000'', Dir [(''tpl'', Dir [(''tpl'', Dir [(''g'', File rw (Text ''x''))]),
                                                (''g'', File rw (Text ''x''))]),
                                 (''g'', File rw (Text ''x''))])]
   \<and> lookup [(''T_0000'', Dir [(''tpl'', Dir [(''tpl'', Dir [(''g'', File rw (Text ''x''))]),
                                                (''g'', File rw (Text ''x''))])])]
         [''T_0000'', ''g''] = None
   \<and> materialize False 0 [''Base'']
        [(''Base'', Dir [(''f'', File (Mode True False) (Text ''x''))])]
       = Inr [(''Base'', Dir [(''f'', File (Mode True False) (Text ''x''))]),
              (''T_0000'', Dir [(''f'', File (Mode True False) (Text ''x''))])]
   \<and> materialize False 0 [''Base'']
        [(''Base'', Dir [(''f'', File (Mode True False) (Text ''x''))]),
         (''T_0000'', Dir [(''f'', File (Mode True False) (Text ''x''))])]
       = Inl (PermissionError,
              [(''Base'', Dir [(''f'', File (Mode True False) (Text ''x''))]),
               (''T_0000'', Dir [(''f'', File (Mode True False) (Text ''x''))])])"
proof -
  have "materialize False 0 [] [] = Inr [(''T_0000'', Dir [(''T_0000'', Dir [])])]"
    by code_simp
  moreover have "materialize False 0 [] [(''T_0000'', Dir [(''T_0000'', Dir [])])]
       = Inr [(''T_0000'', Dir [(''T_0000'', Dir [(''T_0000'', Dir [])])])]" by code_simp
  moreover have "materialize False 0 [''T_0000'', ''tpl'']
        [(''T_0000'', Dir [(''tpl'', Dir [(''tpl'', Dir [(''g'', File rw (Text ''x''))])])])]
       = Inr [(''T_0000'', Dir [(''tpl'', Dir [(''tpl'', Dir [(''g'', File rw (Text ''x''))]),
                                                (''g'', File rw (Text ''x''))])])]" by code_simp
  moreover have "materialize False 0 [''T_0000'', ''tpl'']
        [(''T_0000'', Dir [(''tpl'', Dir [(''tpl'', Dir [(''g'', File rw (Text ''x''))]),
                                           (''g'', File rw (Text ''x''))])])]
       = Inr [(''T_0000'', Dir [(''tpl'', Dir [(''tpl'', Dir [(''g'', File rw (Text ''x''))]),
                                                (''g'', File rw (Text ''x''))]),
                                 (''g'', File rw (Text ''x''))])]" by code_simp
  moreover have "lookup [(''T_0000'', Dir [(''tpl'', Dir [(''tpl'', Dir [(''g'', File rw (Text ''x''))]),
                                                (''g'', File rw (Text ''x''))])])]
         [''T_0000'', ''g''] = None" by code_simp
  moreover have "materialize False 0 [''Base'']
        [(''Base'', Dir [(''f'', File (Mode True False) (Text ''x''))])]
       = Inr [(''Base'', Dir [(''f'', File (Mode True False) (Text ''x''))]),
              (''T_0000'', Dir [(''f'', File (Mode True False) (Text ''x''))])]" by code_simp
  moreover have "materialize False 0 [''Base'']
        [(''Base'', Dir [(''f'', File (Mode True False) (Text ''x''))]),
         (''T_0000'', Dir [(''f'', File (Mode True False) (Text ''x''))])]
       = Inl (PermissionError,
              [(''Base'', Dir [(''f'', File (Mode True False) (Text ''x''))]),
               (''T_0000'', Dir [(''f'', File (Mode True False) (Text ''x''))])])" by code_simp
  ultimately show ?thesis by simp
qed


end
